theory Spec2Isabelle
  imports Complex_Main "HOL-Library.AList"
begin

section \<open>Data model of src/api.py\<close>

text \<open>
  Exceptions are values. \<open>HTTPException\<close> is FastAPI's exception, with its status code
  and detail; only the request handlers raise it. The other exceptions are those that
  the module's statements raise: \<open>KeyError\<close> carries the missing key, \<open>OSError\<close> the
  message of the operating system, \<open>EngineError\<close> stands for any exception raised by
  \<open>run_tts_script\<close> (imported from \<open>core\<close>) and carries its \<open>str(e)\<close>, and
  \<open>UnboundLocalError\<close> carries the name of a local variable that is read before it is
  assigned.
\<close>

datatype http_exception = HTTPException nat string

datatype exn =
    KeyError string
  | OSError string
  | EngineError string
  | UnboundLocalError string

text \<open>
  \<open>repr\<close> of a string without quotes, backslashes or unprintable characters (a uuid, a
  path built from one): the string between single quotes.
\<close>

definition repr :: "string \<Rightarrow> string" where
  "repr x = [CHR 0x27] @ x @ [CHR 0x27]"

text \<open>
  \<open>str(e)\<close>. For a \<open>KeyError\<close> Python prints the \<open>repr\<close> of the key. The message of
  an \<open>UnboundLocalError\<close> is the one Python 3.11 prints.
\<close>

fun str_exn :: "exn \<Rightarrow> string" where
  "str_exn (KeyError k) = repr k"
| "str_exn (OSError m) = m"
| "str_exn (EngineError m) = m"
| "str_exn (UnboundLocalError v) =
     ''cannot access local variable '' @ repr v @ '' where it is not associated with a value''"

text \<open>The request model \<open>TTSRequest\<close>, field by field (lines 36 to 57).\<close>

record TTSRequest =
  tts_text :: string
  tts_voice :: string
  tts_rate :: int
  pitch :: int
  filter_radius :: int
  index_rate :: real
  volume_envelope :: int
  protect :: real
  hop_length :: int
  f0_method :: string
  pth_path :: string
  index_path :: string
  split_audio :: bool
  f0_autotune :: bool
  f0_autotune_strength :: int
  clean_audio :: bool
  clean_strength :: real
  f0_file :: "string option"
  export_format :: string
  embedder_model :: string

text \<open>
  A datetime is a number of microseconds on the local clock. \<open>created_at\<close> and
  \<open>completed_at\<close> are stored as \<open>isoformat()\<close> strings and read back with
  \<open>fromisoformat\<close>, which returns the datetime that was printed; the model stores the
  datetime itself.
\<close>

type_synonym datetime = int

text \<open>
  One entry of \<open>tts_tasks\<close>. The keys \<open>status\<close>, \<open>created_at\<close> and \<open>request\<close> are
  written when the entry is created (lines 150 to 154); \<open>completed_at\<close>,
  \<open>output_file\<close> and \<open>error\<close> are keys that \<open>update\<close> adds later, \<open>None\<close> while the
  key is absent (what \<open>task.get\<close> returns then).
\<close>

record task =
  status :: string
  created_at :: datetime
  request :: TTSRequest
  completed_at :: "datetime option"
  output_file :: "string option"
  error :: "string option"

text \<open>
  The file system as the program sees it: the paths for which \<open>os.path.exists\<close> holds,
  the paths on which \<open>shutil.rmtree\<close> raises and the paths on which \<open>os.makedirs\<close>
  raises, each with the message of the \<open>OSError\<close> that the operating system reports.
\<close>

record filesystem =
  existing :: "string set"
  unremovable :: "string \<rightharpoonup> string"
  uncreatable :: "string \<rightharpoonup> string"

definition os_path_exists :: "filesystem \<Rightarrow> string \<Rightarrow> bool" where
  "os_path_exists f p = (p \<in> existing f)"

definition os_makedirs :: "filesystem \<Rightarrow> string \<Rightarrow> exn + filesystem" where
  \<comment> \<open>\<open>os.makedirs(p, exist_ok=True)\<close>\<close>
  "os_makedirs f p =
     (case uncreatable f p of
        Some m \<Rightarrow> Inl (OSError m)
      | None \<Rightarrow> Inr (f\<lparr>existing := insert p (existing f)\<rparr>))"

definition shutil_rmtree :: "filesystem \<Rightarrow> string \<Rightarrow> exn + filesystem" where
  "shutil_rmtree f p =
     (if p \<notin> existing f
      then Inl (OSError (''[Errno 2] No such file or directory: '' @ repr p))
      else (case unremovable f p of
              Some m \<Rightarrow> Inl (OSError m)
            | None \<Rightarrow> Inr (f\<lparr>existing := existing f - {p}\<rparr>)))"

definition os_path_join :: "string \<Rightarrow> string \<Rightarrow> string" where
  \<comment> \<open>\<open>posixpath.join\<close> of two components\<close>
  "os_path_join a b =
     (if b \<noteq> [] \<and> hd b = CHR ''/'' then b
      else if a = [] \<or> last a = CHR ''/'' then a @ b
      else a @ ''/'' @ b)"

text \<open>
  The module state: the dict \<open>tts_tasks\<close>, in insertion order as a Python dict keeps
  it, and the file system.
\<close>

record state =
  tts_tasks :: "(string \<times> task) list"
  fs :: filesystem

text \<open>\<open>del d[k]\<close> raises \<open>KeyError\<close> when the key is missing.\<close>

definition dict_del :: "string \<Rightarrow> (string \<times> task) list \<Rightarrow> exn + (string \<times> task) list" where
  "dict_del k d =
     (if k \<in> fst ` set d then Inr (AList.delete k d) else Inl (KeyError k))"

section \<open>The request handlers\<close>

text \<open>
  \<open>text_to_speech\<close> (lines 139 to 163). \<open>task_id\<close> is the value of
  \<open>str(uuid.uuid4())\<close> and \<open>now\<close> the value of \<open>datetime.now()\<close>. The handler returns
  the response and the call it hands to \<open>background_tasks.add_task\<close>.
\<close>

record TTSResponse =
  resp_task_id :: string
  resp_status :: string
  resp_created_at :: datetime

definition text_to_speech ::
  "string \<Rightarrow> datetime \<Rightarrow> TTSRequest \<Rightarrow> state \<Rightarrow> state \<times> TTSResponse \<times> (string \<times> TTSRequest)" where
  "text_to_speech task_id now req \<sigma> =
     (let created = now;
          \<sigma>' = \<sigma>\<lparr>tts_tasks := AList.update task_id
                 \<lparr>status = ''pending'', created_at = created, request = req,
                  completed_at = None, output_file = None, error = None\<rparr> (tts_tasks \<sigma>)\<rparr>
      in (\<sigma>', \<lparr>resp_task_id = task_id, resp_status = ''pending'', resp_created_at = created\<rparr>,
          (task_id, req)))"

text \<open>\<open>get_tts_status\<close> (lines 166 to 181).\<close>

record TTSStatus =
  st_task_id :: string
  st_status :: string
  st_created_at :: datetime
  st_completed_at :: "datetime option"
  st_output_file :: "string option"
  st_error :: "string option"

definition get_tts_status :: "string \<Rightarrow> state \<Rightarrow> http_exception + TTSStatus" where
  "get_tts_status task_id \<sigma> =
     (case map_of (tts_tasks \<sigma>) task_id of
        None \<Rightarrow> Inl (HTTPException 404 ''Task not found'')
      | Some t \<Rightarrow> Inr \<lparr>st_task_id = task_id, st_status = status t,
                       st_created_at = created_at t, st_completed_at = completed_at t,
                       st_output_file = output_file t, st_error = error t\<rparr>)"

text \<open>
  \<open>get_tts_result\<close> (lines 184 to 202). \<open>not task.get("output_file")\<close> holds when the
  key is absent or its value is the empty string. The handler returns the
  \<open>FileResponse\<close> object built from the recorded path; it does not look at the file
  system.
\<close>

datatype response = FileResponse string

definition get_tts_result :: "string \<Rightarrow> state \<Rightarrow> http_exception + response" where
  "get_tts_result task_id \<sigma> =
     (case map_of (tts_tasks \<sigma>) task_id of
        None \<Rightarrow> Inl (HTTPException 404 ''Task not found'')
      | Some t \<Rightarrow>
          if status t \<noteq> ''completed''
          then Inl (HTTPException 400 (''Task is not completed. Current status: '' @ status t))
          else (case output_file t of
                  None \<Rightarrow> Inl (HTTPException 404 ''Output file not found'')
                | Some p \<Rightarrow> if p = [] then Inl (HTTPException 404 ''Output file not found'')
                            else Inr (FileResponse p)))"

text \<open>
  The guarded removal that the delete handler, the sweeper and the worker's failure
  handler share: \<open>if os.path.exists(temp_dir): shutil.rmtree(temp_dir)\<close>.
\<close>

definition remove_if_exists :: "filesystem \<Rightarrow> string \<Rightarrow> exn + filesystem" where
  "remove_if_exists f p = (if os_path_exists f p then shutil_rmtree f p else Inr f)"

text \<open>
  \<open>delete_tts_task\<close> (lines 205 to 222). It raises the 404, or ends with the exception
  of one of its statements, or returns its message.
\<close>

datatype delete_result =
    Raises_HTTP http_exception
  | Raises exn
  | Returns string

definition delete_tts_task :: "string \<Rightarrow> state \<Rightarrow> state \<times> delete_result" where
  "delete_tts_task task_id \<sigma> =
     (case map_of (tts_tasks \<sigma>) task_id of
        None \<Rightarrow> (\<sigma>, Raises_HTTP (HTTPException 404 ''Task not found''))
      | Some t \<Rightarrow>
          (let temp = ''temp_tts_'' @ task_id in
           case remove_if_exists (fs \<sigma>) temp of
             Inl e \<Rightarrow> (\<sigma>, Raises e)
           | Inr f' \<Rightarrow>
               (case dict_del task_id (tts_tasks \<sigma>) of
                  Inl e \<Rightarrow> (\<sigma>\<lparr>fs := f'\<rparr>, Raises e)
                | Inr d' \<Rightarrow> (\<sigma>\<lparr>fs := f', tts_tasks := d'\<rparr>,
                             Returns (''Task '' @ task_id @ '' deleted successfully'')))))"

section \<open>The expiry sweeper\<close>

text \<open>
  One pass of the body of \<open>while True\<close> in \<open>cleanup_old_tasks\<close> (lines 229 to 242),
  up to the \<open>await asyncio.sleep(3600)\<close>; \<open>current_time\<close> is the value of
  \<open>datetime.now()\<close>. The loop repeats the pass after every sleep, for as long as no
  pass raises, and the rest of the service runs while it sleeps: a pass is one step of
  the service below. \<open>timedelta.days\<close> is the floor of the difference divided by one
  day.
\<close>

definition microseconds_per_day :: int where
  "microseconds_per_day = 86400000000"

definition timedelta_days :: "datetime \<Rightarrow> datetime \<Rightarrow> int" where
  "timedelta_days current_time created = (current_time - created) div microseconds_per_day"

definition tasks_to_delete :: "datetime \<Rightarrow> (string \<times> task) list \<Rightarrow> string list" where
  "tasks_to_delete current_time d =
     map fst (filter (\<lambda>(task_id, t). timedelta_days current_time (created_at t) \<ge> 1) d)"

fun delete_loop :: "string list \<Rightarrow> state \<Rightarrow> state \<times> (exn + unit)" where
  "delete_loop [] \<sigma> = (\<sigma>, Inr ())"
| "delete_loop (task_id # rest) \<sigma> =
     (let temp = ''temp_tts_'' @ task_id in
      case remove_if_exists (fs \<sigma>) temp of
        Inl e \<Rightarrow> (\<sigma>, Inl e)
      | Inr f' \<Rightarrow>
          (case dict_del task_id (tts_tasks \<sigma>) of
             Inl e \<Rightarrow> (\<sigma>\<lparr>fs := f'\<rparr>, Inl e)
           | Inr d' \<Rightarrow> delete_loop rest (\<sigma>\<lparr>fs := f', tts_tasks := d'\<rparr>)))"

definition cleanup_old_tasks_tick :: "datetime \<Rightarrow> state \<Rightarrow> state \<times> (exn + unit)" where
  "cleanup_old_tasks_tick current_time \<sigma> =
     delete_loop (tasks_to_delete current_time (tts_tasks \<sigma>)) \<sigma>"

section \<open>The background worker\<close>

text \<open>
  The local variables of \<open>process_tts_task\<close>; \<open>None\<close> while a variable is not yet
  assigned. Reading an unassigned local raises \<open>UnboundLocalError\<close>.
\<close>

record locals =
  temp_dir :: "string option"
  tts_output :: "string option"
  rvc_output :: "string option"
  message :: "string option"
  output_file_local :: "string option"

definition no_locals :: locals where
  "no_locals = \<lparr>temp_dir = None, tts_output = None, rvc_output = None,
                 message = None, output_file_local = None\<rparr>"

text \<open>
  A statement runs on the locals and the module state and either completes or raises;
  \<open>seq\<close> is the sequence of two statements, which stops at the first exception and
  keeps the locals and the state as they are at that point.
\<close>

type_synonym stmt = "locals \<Rightarrow> state \<Rightarrow> exn option \<times> locals \<times> state"

definition seq :: "stmt \<Rightarrow> stmt \<Rightarrow> stmt" where
  "seq s1 s2 l \<sigma> =
     (case s1 l \<sigma> of
        (None, l', \<sigma>') \<Rightarrow> s2 l' \<sigma>'
      | (Some e, l', \<sigma>') \<Rightarrow> (Some e, l', \<sigma>'))"

definition assign_temp_dir :: "string \<Rightarrow> stmt" where
  \<comment> \<open>line 77\<close>
  "assign_temp_dir task_id l \<sigma> = (None, l\<lparr>temp_dir := Some (''temp_tts_'' @ task_id)\<rparr>, \<sigma>)"

definition make_temp_dir :: stmt where
  \<comment> \<open>line 78\<close>
  "make_temp_dir l \<sigma> =
     (case temp_dir l of
        None \<Rightarrow> (Some (UnboundLocalError ''temp_dir''), l, \<sigma>)
      | Some d \<Rightarrow>
          (case os_makedirs (fs \<sigma>) d of
             Inl e \<Rightarrow> (Some e, l, \<sigma>)
           | Inr f' \<Rightarrow> (None, l, \<sigma>\<lparr>fs := f'\<rparr>)))"

definition assign_tts_output :: stmt where
  \<comment> \<open>line 80\<close>
  "assign_tts_output l \<sigma> =
     (case temp_dir l of
        None \<Rightarrow> (Some (UnboundLocalError ''temp_dir''), l, \<sigma>)
      | Some d \<Rightarrow> (None, l\<lparr>tts_output := Some (os_path_join d ''tts_output.wav'')\<rparr>, \<sigma>))"

definition assign_rvc_output :: "TTSRequest \<Rightarrow> stmt" where
  \<comment> \<open>line 81\<close>
  "assign_rvc_output req l \<sigma> =
     (case temp_dir l of
        None \<Rightarrow> (Some (UnboundLocalError ''temp_dir''), l, \<sigma>)
      | Some d \<Rightarrow>
          (None, l\<lparr>rvc_output := Some (os_path_join d (''rvc_output.'' @ export_format req))\<rparr>, \<sigma>))"

definition set_processing :: "string \<Rightarrow> stmt" where
  \<comment> \<open>line 84\<close>
  "set_processing task_id l \<sigma> =
     (case map_of (tts_tasks \<sigma>) task_id of
        None \<Rightarrow> (Some (KeyError task_id), l, \<sigma>)
      | Some t \<Rightarrow>
          (None, l, \<sigma>\<lparr>tts_tasks := AList.update task_id (t\<lparr>status := ''processing''\<rparr>) (tts_tasks \<sigma>)\<rparr>))"

definition try_before_await :: "string \<Rightarrow> TTSRequest \<Rightarrow> stmt" where
  \<comment> \<open>lines 77 to 84\<close>
  "try_before_await task_id req =
     seq (assign_temp_dir task_id)
       (seq make_temp_dir
         (seq assign_tts_output
           (seq (assign_rvc_output req) (set_processing task_id))))"

text \<open>
  The engine \<open>run_tts_script\<close> is not part of this module: it is a parameter that maps
  the request and the two output paths to the exception it raises or to the pair
  \<open>(message, output_file)\<close> it returns.
\<close>

type_synonym engine = "TTSRequest \<Rightarrow> string \<Rightarrow> string \<Rightarrow> exn + string \<times> string"

definition engine_call :: "engine \<Rightarrow> TTSRequest \<Rightarrow> locals \<Rightarrow> exn + string \<times> string" where
  \<comment> \<open>lines 88 to 115\<close>
  "engine_call run_tts_script req l =
     (case tts_output l of
        None \<Rightarrow> Inl (UnboundLocalError ''tts_output'')
      | Some a \<Rightarrow>
          (case rvc_output l of
             None \<Rightarrow> Inl (UnboundLocalError ''rvc_output'')
           | Some b \<Rightarrow> run_tts_script req a b))"

definition set_completed :: "string \<Rightarrow> datetime \<Rightarrow> stmt" where
  \<comment> \<open>lines 118 to 122\<close>
  "set_completed task_id now l \<sigma> =
     (case map_of (tts_tasks \<sigma>) task_id of
        None \<Rightarrow> (Some (KeyError task_id), l, \<sigma>)
      | Some t \<Rightarrow>
          (case output_file_local l of
             None \<Rightarrow> (Some (UnboundLocalError ''output_file''), l, \<sigma>)
           | Some p \<Rightarrow>
               (None, l, \<sigma>\<lparr>tts_tasks := AList.update task_id
                  (t\<lparr>status := ''completed'', completed_at := Some now, output_file := Some p\<rparr>)
                  (tts_tasks \<sigma>)\<rparr>)))"

definition try_after_await :: "string \<Rightarrow> datetime \<Rightarrow> exn + string \<times> string \<Rightarrow> stmt" where
  \<comment> \<open>the \<open>await\<close> of line 88 returns or raises, then lines 118 to 122\<close>
  "try_after_await task_id now outcome l \<sigma> =
     (case outcome of
        Inl e \<Rightarrow> (Some e, l, \<sigma>)
      | Inr (m, p) \<Rightarrow>
          set_completed task_id now (l\<lparr>message := Some m, output_file_local := Some p\<rparr>) \<sigma>)"

text \<open>
  The handler \<open>except Exception as e\<close> (lines 124 to 136). It returns the state and
  the exception that leaves it: \<open>e\<close> itself, raised again by line 136, or the exception
  that one of the handler's own statements raises.
\<close>

definition except_handler :: "string \<Rightarrow> datetime \<Rightarrow> exn \<Rightarrow> locals \<Rightarrow> state \<Rightarrow> state \<times> exn" where
  "except_handler task_id now e l \<sigma> =
     (case map_of (tts_tasks \<sigma>) task_id of
        None \<Rightarrow> (\<sigma>, KeyError task_id)
      | Some t \<Rightarrow>
          (let \<sigma>1 = \<sigma>\<lparr>tts_tasks := AList.update task_id
                  (t\<lparr>status := ''failed'', completed_at := Some now, error := Some (str_exn e)\<rparr>)
                  (tts_tasks \<sigma>)\<rparr>
           in case temp_dir l of
                None \<Rightarrow> (\<sigma>1, UnboundLocalError ''temp_dir'')
              | Some d \<Rightarrow>
                  (case remove_if_exists (fs \<sigma>1) d of
                     Inl e' \<Rightarrow> (\<sigma>1, e')
                   | Inr f' \<Rightarrow> (\<sigma>1\<lparr>fs := f'\<rparr>, e))))"

text \<open>
  The coroutine runs without interruption up to its only \<open>await\<close> and again from the
  engine's return to its end. \<open>process_tts_task_begin\<close> is the first part: it ends
  either suspended at the \<open>await\<close> (\<open>Inr\<close>, with the locals of the frame) or with the
  exception that leaves the coroutine. \<open>process_tts_task_resume\<close> is the second part,
  from the engine's outcome.
\<close>

definition process_tts_task_begin ::
  "string \<Rightarrow> TTSRequest \<Rightarrow> datetime \<Rightarrow> state \<Rightarrow> state \<times> (exn + locals)" where
  "process_tts_task_begin task_id req now \<sigma> =
     (case try_before_await task_id req no_locals \<sigma> of
        (None, l, \<sigma>') \<Rightarrow> (\<sigma>', Inr l)
      | (Some e, l, \<sigma>') \<Rightarrow>
          (case except_handler task_id now e l \<sigma>' of (\<sigma>'', e') \<Rightarrow> (\<sigma>'', Inl e')))"

definition process_tts_task_resume ::
  "string \<Rightarrow> datetime \<Rightarrow> exn + string \<times> string \<Rightarrow> locals \<Rightarrow> state \<Rightarrow> state \<times> (exn + unit)" where
  "process_tts_task_resume task_id now outcome l \<sigma> =
     (case try_after_await task_id now outcome l \<sigma> of
        (None, l', \<sigma>') \<Rightarrow> (\<sigma>', Inr ())
      | (Some e, l', \<sigma>') \<Rightarrow>
          (case except_handler task_id now e l' \<sigma>' of (\<sigma>'', e') \<Rightarrow> (\<sigma>'', Inl e')))"

text \<open>The whole coroutine when nothing else runs while it waits for the engine.\<close>

definition process_tts_task ::
  "engine \<Rightarrow> string \<Rightarrow> TTSRequest \<Rightarrow> datetime \<Rightarrow> state \<Rightarrow> state \<times> (exn + unit)" where
  "process_tts_task run_tts_script task_id req now \<sigma> =
     (case process_tts_task_begin task_id req now \<sigma> of
        (\<sigma>1, Inl e) \<Rightarrow> (\<sigma>1, Inl e)
      | (\<sigma>1, Inr l) \<Rightarrow>
          process_tts_task_resume task_id now (engine_call run_tts_script req l) l \<sigma>1)"

section \<open>The running service\<close>

text \<open>
  The service is the module state together with the coroutines of \<open>process_tts_task\<close>
  that exist: those added by \<open>background_tasks.add_task\<close> and not yet started, and
  those suspended at their \<open>await\<close>, each with its frame.
\<close>

record service =
  cur :: state
  background :: "(string \<times> TTSRequest) list"
  suspended :: "(string \<times> TTSRequest \<times> locals) list"

text \<open>
  One step of the service is one piece of code that the event loop runs without
  interruption: a request handler, one half of a worker coroutine, or a sweeper pass;
  or a change of the file system made outside the event loop (the engine's thread,
  other processes). \<open>uuid.uuid4()\<close> returns an identifier that no entry and no
  coroutine of the service carries.
\<close>

inductive step :: "service \<Rightarrow> service \<Rightarrow> bool" where
  submit:
    "task_id \<notin> fst ` set (tts_tasks (cur s)) \<Longrightarrow>
     task_id \<notin> fst ` set (background s) \<Longrightarrow>
     task_id \<notin> fst ` set (suspended s) \<Longrightarrow>
     text_to_speech task_id now req (cur s) = (\<sigma>', resp, bg) \<Longrightarrow>
     step s (s\<lparr>cur := \<sigma>', background := background s @ [bg]\<rparr>)"
| start_raise:
    "(task_id, req) \<in> set (background s) \<Longrightarrow>
     process_tts_task_begin task_id req now (cur s) = (\<sigma>', Inl e) \<Longrightarrow>
     step s (s\<lparr>cur := \<sigma>', background := remove1 (task_id, req) (background s)\<rparr>)"
| start_await:
    "(task_id, req) \<in> set (background s) \<Longrightarrow>
     process_tts_task_begin task_id req now (cur s) = (\<sigma>', Inr l) \<Longrightarrow>
     step s (s\<lparr>cur := \<sigma>', background := remove1 (task_id, req) (background s),
               suspended := suspended s @ [(task_id, req, l)]\<rparr>)"
| finish:
    "(task_id, req, l) \<in> set (suspended s) \<Longrightarrow>
     process_tts_task_resume task_id now outcome l (cur s) = (\<sigma>', r) \<Longrightarrow>
     step s (s\<lparr>cur := \<sigma>', suspended := remove1 (task_id, req, l) (suspended s)\<rparr>)"
| status_query:
    "get_tts_status task_id (cur s) = r \<Longrightarrow> step s s"
| fetch_result:
    "get_tts_result task_id (cur s) = r \<Longrightarrow> step s s"
| delete:
    "delete_tts_task task_id (cur s) = (\<sigma>', r) \<Longrightarrow> step s (s\<lparr>cur := \<sigma>'\<rparr>)"
| sweep:
    "cleanup_old_tasks_tick now (cur s) = (\<sigma>', r) \<Longrightarrow> step s (s\<lparr>cur := \<sigma>'\<rparr>)"
| environment:
    "step s (s\<lparr>cur := (cur s)\<lparr>fs := f'\<rparr>\<rparr>)"

text \<open>The service starts with no task and no coroutine, on any file system.\<close>

inductive reachable :: "service \<Rightarrow> bool" where
  start: "tts_tasks (cur s) = [] \<Longrightarrow> background s = [] \<Longrightarrow> suspended s = [] \<Longrightarrow> reachable s"
| step: "reachable s \<Longrightarrow> step s s' \<Longrightarrow> reachable s'"

section \<open>Predicates of the specification\<close>

text \<open>
  A record is well formed when its status is one of the four status strings, the key
  \<open>output_file\<close> is set exactly when the status is \<open>completed\<close>, and the key \<open>error\<close>
  is set exactly when the status is \<open>failed\<close>.
\<close>

definition well_formed :: "task \<Rightarrow> bool" where
  "well_formed t =
     (status t \<in> {''pending'', ''processing'', ''completed'', ''failed''} \<and>
      (output_file t \<noteq> None \<longleftrightarrow> status t = ''completed'') \<and>
      (error t \<noteq> None \<longleftrightarrow> status t = ''failed''))"

text \<open>
  The invariant of the service: \<open>tts_tasks\<close> is a dict (no key twice), every record
  is well formed, the record of a coroutine that has not started is \<open>pending\<close>, the
  record of a coroutine suspended at its \<open>await\<close> is \<open>processing\<close>, and no two
  coroutines carry the same task id.
\<close>

definition service_invariant :: "service \<Rightarrow> bool" where
  "service_invariant s =
     (distinct (map fst (tts_tasks (cur s))) \<and>
      (\<forall>task_id t. (task_id, t) \<in> set (tts_tasks (cur s)) \<longrightarrow> well_formed t) \<and>
      (\<forall>task_id req t. (task_id, req) \<in> set (background s) \<longrightarrow>
          (task_id, t) \<in> set (tts_tasks (cur s)) \<longrightarrow> status t = ''pending'') \<and>
      (\<forall>task_id req l t. (task_id, req, l) \<in> set (suspended s) \<longrightarrow>
          (task_id, t) \<in> set (tts_tasks (cur s)) \<longrightarrow> status t = ''processing'') \<and>
      distinct (map fst (background s) @ map fst (suspended s)))"

text \<open>
  The transitions of the specification's state machine, in its words:
  \<open>Pending \<rightarrow> Processing \<rightarrow> Completed\<close> and \<open>Pending \<rightarrow> Processing \<rightarrow> Failed\<close>.
\<close>

definition spec_transition :: "string \<Rightarrow> string \<Rightarrow> bool" where
  "spec_transition a b =
     ((a, b) \<in> {(''pending'', ''processing''), (''processing'', ''completed''),
                 (''processing'', ''failed'')})"

text \<open>
  The transitions the code makes: those of the specification and
  \<open>pending \<rightarrow> failed\<close>, taken when \<open>os.makedirs\<close> raises before line 84 is reached.
\<close>

definition status_transition :: "string \<Rightarrow> string \<Rightarrow> bool" where
  "status_transition a b = (spec_transition a b \<or> (a, b) = (''pending'', ''failed''))"

text \<open>
  How the records of a dict \<open>d'\<close> relate to those of the dict \<open>d\<close> one step earlier: a
  record under a new key is \<open>pending\<close>, and a record under an old key has the old
  status or has made one transition.
\<close>

definition status_moves :: "(string \<times> task) list \<Rightarrow> (string \<times> task) list \<Rightarrow> bool" where
  "status_moves d d' =
     ((\<forall>task_id t'. (task_id, t') \<in> set d' \<longrightarrow> task_id \<notin> fst ` set d \<longrightarrow>
          status t' = ''pending'') \<and>
      (\<forall>task_id t t'. (task_id, t) \<in> set d \<longrightarrow> (task_id, t') \<in> set d' \<longrightarrow>
          status t' = status t \<or> status_transition (status t) (status t')))"

section \<open>Concrete runs\<close>

text \<open>A request with the defaults of \<open>TTSRequest\<close>.\<close>

definition default_request :: "string \<Rightarrow> TTSRequest" where
  "default_request text =
     \<lparr>tts_text = text, tts_voice = ''fr-FR-HenriNeural'', tts_rate = 0, pitch = 0,
      filter_radius = 3, index_rate = 0.75, volume_envelope = 1, protect = 0.5,
      hop_length = 128, f0_method = ''rmvpe'', pth_path = ''logs/model/model.pth'',
      index_path = ''logs/metadata/metadata.index'', split_audio = False,
      f0_autotune = False, f0_autotune_strength = 1, clean_audio = True,
      clean_strength = 0.5, f0_file = None, export_format = ''wav'',
      embedder_model = ''contentvec''\<rparr>"

definition hello :: TTSRequest where
  "hello = default_request ''hello''"

definition no_files :: filesystem where
  "no_files = \<lparr>existing = {}, unremovable = Map.empty, uncreatable = Map.empty\<rparr>"

definition empty_state :: state where
  "empty_state = \<lparr>tts_tasks = [], fs = no_files\<rparr>"

text \<open>An engine that succeeds and returns the output path, and one that raises.\<close>

definition engine_ok :: engine where
  "engine_ok req a b = Inr (''Text synthesized successfully.'', b)"

definition engine_blew_up :: engine where
  "engine_blew_up req a b = Inl (EngineError ''engine blew up'')"

text \<open>Task \<open>a\<close> is submitted at time 0, starts at time 1 and completes at time 2.\<close>

definition submitted_state :: state where
  "submitted_state = fst (text_to_speech ''a'' 0 hello empty_state)"

definition processing_state :: state where
  "processing_state = fst (process_tts_task_begin ''a'' hello 1 submitted_state)"

definition frame_a :: locals where
  "frame_a = \<lparr>temp_dir = Some ''temp_tts_a'', tts_output = Some ''temp_tts_a/tts_output.wav'',
               rvc_output = Some ''temp_tts_a/rvc_output.wav'', message = None,
               output_file_local = None\<rparr>"

definition completed_state :: state where
  "completed_state =
     fst (process_tts_task_resume ''a'' 2
            (Inr (''Text synthesized successfully.'', ''temp_tts_a/rvc_output.wav''))
            frame_a processing_state)"

definition pending_task :: task where
  "pending_task = \<lparr>status = ''pending'', created_at = 0, request = hello,
                    completed_at = None, output_file = None, error = None\<rparr>"

definition processing_task :: task where
  "processing_task = pending_task\<lparr>status := ''processing''\<rparr>"

definition completed_task :: task where
  "completed_task = pending_task\<lparr>status := ''completed'', completed_at := Some 2,
                                  output_file := Some ''temp_tts_a/rvc_output.wav''\<rparr>"

definition failed_task :: task where
  "failed_task = pending_task\<lparr>status := ''failed'', completed_at := Some 1,
                               error := Some ''[Errno 30] Read-only file system''\<rparr>"

definition service_started :: service where
  "service_started = \<lparr>cur = empty_state, background = [], suspended = []\<rparr>"

definition service_submitted :: service where
  "service_submitted = \<lparr>cur = submitted_state, background = [(''a'', hello)], suspended = []\<rparr>"

definition service_processing :: service where
  "service_processing =
     \<lparr>cur = processing_state, background = [], suspended = [(''a'', hello, frame_a)]\<rparr>"

definition service_completed :: service where
  "service_completed = \<lparr>cur = completed_state, background = [], suspended = []\<rparr>"

text \<open>The same submission on a file system where the working directory cannot be made.\<close>

definition readonly_files :: filesystem where
  "readonly_files =
     \<lparr>existing = {}, unremovable = Map.empty,
      uncreatable = [''temp_tts_a'' \<mapsto> ''[Errno 30] Read-only file system'']\<rparr>"

definition readonly_submitted :: state where
  "readonly_submitted =
     fst (text_to_speech ''a'' 0 hello \<lparr>tts_tasks = [], fs = readonly_files\<rparr>)"

definition readonly_failed :: state where
  "readonly_failed = fst (process_tts_task_begin ''a'' hello 1 readonly_submitted)"

definition service_readonly_started :: service where
  "service_readonly_started =
     \<lparr>cur = \<lparr>tts_tasks = [], fs = readonly_files\<rparr>, background = [], suspended = []\<rparr>"

definition service_readonly_submitted :: service where
  "service_readonly_submitted =
     \<lparr>cur = readonly_submitted, background = [(''a'', hello)], suspended = []\<rparr>"

definition service_readonly_failed :: service where
  "service_readonly_failed = \<lparr>cur = readonly_failed, background = [], suspended = []\<rparr>"










text \<open>
  Three tasks created 25, 23 and 1 hours before the sweeper's clock reads 100 hours;
  the working directory of the first exists.
\<close>

definition hour :: int where
  "hour = 3600000000"

definition task_created :: "datetime \<Rightarrow> task" where
  "task_created c = \<lparr>status = ''pending'', created_at = c, request = hello,
                      completed_at = None, output_file = None, error = None\<rparr>"

definition three_tasks :: state where
  "three_tasks =
     \<lparr>tts_tasks = [(''a'', task_created (75 * hour)), (''b'', task_created (77 * hour)),
                   (''c'', task_created (99 * hour))],
      fs = \<lparr>existing = {''temp_tts_a''}, unremovable = Map.empty, uncreatable = Map.empty\<rparr>\<rparr>"

text \<open>A task created exactly 24 hours before the sweeper's clock reads 100 hours.\<close>

definition one_day_old :: state where
  "one_day_old = \<lparr>tts_tasks = [(''a'', task_created (76 * hour))], fs = no_files\<rparr>"

text \<open>
  Tasks created 25 and 26 hours before; the working directory of the first exists and
  cannot be removed.
\<close>

definition locked_files :: filesystem where
  "locked_files =
     \<lparr>existing = {''temp_tts_a''},
      unremovable = [''temp_tts_a'' \<mapsto> ''[Errno 13] Permission denied''],
      uncreatable = Map.empty\<rparr>"

definition one_locked :: state where
  "one_locked = \<lparr>tts_tasks = [(''a'', task_created (75 * hour))], fs = locked_files\<rparr>"

definition two_expired :: state where
  "two_expired =
     \<lparr>tts_tasks = [(''a'', task_created (75 * hour)), (''b'', task_created (74 * hour))],
      fs = locked_files\<rparr>"

text \<open>
  Three expired tasks; the working directories of the first two exist and that of the
  second cannot be removed.
\<close>

definition second_locked :: state where
  "second_locked =
     \<lparr>tts_tasks = [(''a'', task_created (75 * hour)), (''b'', task_created (74 * hour)),
                   (''c'', task_created (70 * hour))],
      fs = \<lparr>existing = {''temp_tts_a'', ''temp_tts_b''},
             unremovable = [''temp_tts_b'' \<mapsto> ''[Errno 13] Permission denied''],
             uncreatable = Map.empty\<rparr>\<rparr>"

text \<open>
  Task \<open>a\<close> has completed and its working directory, with the output file in it, has
  since been removed from outside the service.
\<close>

definition artifact_removed :: state where
  "artifact_removed = completed_state\<lparr>fs := no_files\<rparr>"

section \<open>What each operation does to the dict\<close>

lemma try_before_await_closed:
  "try_before_await task_id req no_locals \<sigma> =
     (let d = ''temp_tts_'' @ task_id in
      case uncreatable (fs \<sigma>) d of
        Some m \<Rightarrow> (Some (OSError m), no_locals\<lparr>temp_dir := Some d\<rparr>, \<sigma>)
      | None \<Rightarrow>
        (let l = no_locals\<lparr>temp_dir := Some d, tts_output := Some (os_path_join d ''tts_output.wav''),
                   rvc_output := Some (os_path_join d (''rvc_output.'' @ export_format req))\<rparr>;
             \<sigma>1 = \<sigma>\<lparr>fs := (fs \<sigma>)\<lparr>existing := insert d (existing (fs \<sigma>))\<rparr>\<rparr>
         in case map_of (tts_tasks \<sigma>) task_id of
              None \<Rightarrow> (Some (KeyError task_id), l, \<sigma>1)
            | Some t \<Rightarrow> (None, l, \<sigma>1\<lparr>tts_tasks :=
                  AList.update task_id (t\<lparr>status := ''processing''\<rparr>) (tts_tasks \<sigma>)\<rparr>)))"
  by (simp add: try_before_await_def seq_def assign_temp_dir_def make_temp_dir_def
      assign_tts_output_def assign_rvc_output_def set_processing_def os_makedirs_def
      no_locals_def Let_def split: option.split)

lemma remove_if_exists_tasks:
  "remove_if_exists f p = Inr f' \<Longrightarrow>
     unremovable f' = unremovable f \<and> uncreatable f' = uncreatable f \<and>
     existing f' = existing f - {p}"
  by (auto simp: remove_if_exists_def os_path_exists_def shutil_rmtree_def
      split: if_splits option.splits)

lemma except_handler_tasks:
  "except_handler task_id now e l \<sigma> = (\<sigma>', e') \<Longrightarrow>
     (map_of (tts_tasks \<sigma>) task_id = None \<and> tts_tasks \<sigma>' = tts_tasks \<sigma>) \<or>
     (\<exists>t. map_of (tts_tasks \<sigma>) task_id = Some t \<and>
          tts_tasks \<sigma>' = AList.update task_id
            (t\<lparr>status := ''failed'', completed_at := Some now, error := Some (str_exn e)\<rparr>) (tts_tasks \<sigma>))"
  by (auto simp: except_handler_def Let_def split: option.splits sum.splits)

lemma begin_tasks:
  assumes "process_tts_task_begin task_id req now \<sigma> = (\<sigma>', r)"
  shows "(map_of (tts_tasks \<sigma>) task_id = None \<and> tts_tasks \<sigma>' = tts_tasks \<sigma> \<and> (\<exists>e. r = Inl e)) \<or>
     (\<exists>t. map_of (tts_tasks \<sigma>) task_id = Some t \<and>
        ((tts_tasks \<sigma>' = AList.update task_id (t\<lparr>status := ''processing''\<rparr>) (tts_tasks \<sigma>) \<and> (\<exists>l. r = Inr l)) \<or>
         (\<exists>m. tts_tasks \<sigma>' = AList.update task_id
            (t\<lparr>status := ''failed'', completed_at := Some now, error := Some m\<rparr>) (tts_tasks \<sigma>) \<and> (\<exists>e. r = Inl e))))"
  using assms
  by (auto simp: process_tts_task_begin_def try_before_await_closed except_handler_def Let_def
      split: option.splits sum.splits if_splits prod.splits)

lemma resume_tasks:
  assumes "process_tts_task_resume task_id now outcome l \<sigma> = (\<sigma>', r)"
  shows "(map_of (tts_tasks \<sigma>) task_id = None \<and> tts_tasks \<sigma>' = tts_tasks \<sigma>) \<or>
     (\<exists>t. map_of (tts_tasks \<sigma>) task_id = Some t \<and>
        ((\<exists>p. tts_tasks \<sigma>' = AList.update task_id
            (t\<lparr>status := ''completed'', completed_at := Some now, output_file := Some p\<rparr>) (tts_tasks \<sigma>)) \<or>
         (\<exists>m. tts_tasks \<sigma>' = AList.update task_id
            (t\<lparr>status := ''failed'', completed_at := Some now, error := Some m\<rparr>) (tts_tasks \<sigma>))))"
  using assms
  by (auto simp: process_tts_task_resume_def try_after_await_def set_completed_def except_handler_def Let_def
      split: option.splits sum.splits if_splits prod.splits)

lemma delete_tasks:
  assumes "delete_tts_task task_id \<sigma> = (\<sigma>', r)"
  shows "tts_tasks \<sigma>' = tts_tasks \<sigma> \<or> tts_tasks \<sigma>' = AList.delete task_id (tts_tasks \<sigma>)"
  using assms
  by (auto simp: delete_tts_task_def dict_del_def Let_def split: option.splits sum.splits if_splits)

lemma delete_loop_tasks:
  "delete_loop ks \<sigma> = (\<sigma>', r) \<Longrightarrow> \<exists>K. tts_tasks \<sigma>' = AList.restrict (- K) (tts_tasks \<sigma>)"
proof (induction ks arbitrary: \<sigma>)
  case Nil
  then have "tts_tasks \<sigma>' = AList.restrict (- {}) (tts_tasks \<sigma>)"
    by (simp add: AList.restrict_eq)
  then show ?case by blast
next
  case (Cons k ks)
  show ?case
  proof (cases "remove_if_exists (fs \<sigma>) (''temp_tts_'' @ k)")
    case (Inl e)
    with Cons.prems have "tts_tasks \<sigma>' = AList.restrict (- {}) (tts_tasks \<sigma>)"
      by (simp add: AList.restrict_eq)
    then show ?thesis by blast
  next
    case (Inr f')
    show ?thesis
    proof (cases "k \<in> fst ` set (tts_tasks \<sigma>)")
      case False
      with Cons.prems Inr have "tts_tasks \<sigma>' = AList.restrict (- {}) (tts_tasks \<sigma>)"
        by (auto simp: AList.restrict_eq dict_del_def)
      then show ?thesis by blast
    next
      case True
      with Cons.prems Inr
      have "delete_loop ks (\<sigma>\<lparr>fs := f', tts_tasks := AList.delete k (tts_tasks \<sigma>)\<rparr>) = (\<sigma>', r)"
        by (simp add: dict_del_def)
      from Cons.IH[OF this] obtain K where
        "tts_tasks \<sigma>' = AList.restrict (- K) (AList.delete k (tts_tasks \<sigma>))" by auto
      then have "tts_tasks \<sigma>' = AList.restrict (- insert k K) (tts_tasks \<sigma>)"
        by (auto simp: AList.restrict_eq AList.delete_eq case_prod_unfold intro: filter_cong)
      then show ?thesis by blast
    qed
  qed
qed

section \<open>The invariant of the service\<close>

lemma distinct_map_remove1:
  "distinct (map f xs) \<Longrightarrow> distinct (map f (remove1 x xs))"
  by (induction xs) (auto dest: set_remove1_subset[THEN subsetD])

lemma notin_map_remove1:
  "distinct (map f xs) \<Longrightarrow> x \<in> set xs \<Longrightarrow> f x \<notin> f ` set (remove1 x xs)"
  by (induction xs) (auto dest: set_remove1_subset[THEN subsetD] simp: image_iff)

lemma invariant_start: 
  "tts_tasks (cur s) = [] \<Longrightarrow> background s = [] \<Longrightarrow> suspended s = [] \<Longrightarrow> service_invariant s"
  by (simp add: service_invariant_def)

lemma in_update_cases:
  "distinct (map fst d) \<Longrightarrow> (k, t) \<in> set (AList.update k' v d) \<Longrightarrow>
     (k = k' \<and> t = v) \<or> (k \<noteq> k' \<and> (k, t) \<in> set d)"
  by (induction d) (auto split: if_splits simp: image_iff)

lemma invariant_submit:
  assumes inv: "service_invariant s"
    and fresh: "task_id \<notin> fst ` set (tts_tasks (cur s))" "task_id \<notin> fst ` set (background s)"
      "task_id \<notin> fst ` set (suspended s)"
    and op: "text_to_speech task_id now req (cur s) = (\<sigma>', resp, bg)"
  shows "service_invariant (s\<lparr>cur := \<sigma>', background := background s @ [bg]\<rparr>)"
proof -
  let ?t = "\<lparr>status = ''pending'', created_at = now, request = req,
       completed_at = None, output_file = None, error = None\<rparr>"
  from op have \<sigma>': "tts_tasks \<sigma>' = AList.update task_id ?t (tts_tasks (cur s))"
    and bg: "bg = (task_id, req)"
    by (auto simp: text_to_speech_def Let_def)
  have b: "\<And>r. (task_id, r) \<notin> set (background s)" using fresh(2) by force
  have c: "\<And>r l. (task_id, r, l) \<notin> set (suspended s)" using fresh(3) by force
  have ds: "distinct (map fst (tts_tasks (cur s)))"
    using inv by (simp add: service_invariant_def)
  have m: "(k = task_id \<and> t = ?t) \<or> (k \<noteq> task_id \<and> (k, t) \<in> set (tts_tasks (cur s)))"
    if "(k, t) \<in> set (tts_tasks \<sigma>')" for k t
    using in_update_cases[OF ds that[unfolded \<sigma>']] .
  have wf: "well_formed ?t" by (simp add: well_formed_def)
  show ?thesis
    unfolding service_invariant_def
  proof (intro conjI allI impI)
    show "distinct (map fst (tts_tasks (cur (s\<lparr>cur := \<sigma>', background := background s @ [bg]\<rparr>))))"
      using ds by (simp add: \<sigma>' distinct_update)
  next
    fix k t assume "(k, t) \<in> set (tts_tasks (cur (s\<lparr>cur := \<sigma>', background := background s @ [bg]\<rparr>)))"
    then have "(k, t) \<in> set (tts_tasks \<sigma>')" by simp
    from m[OF this] show "well_formed t"
      using inv wf by (auto simp: service_invariant_def)
  next
    fix k r t
    assume w: "(k, r) \<in> set (background (s\<lparr>cur := \<sigma>', background := background s @ [bg]\<rparr>))"
      and "(k, t) \<in> set (tts_tasks (cur (s\<lparr>cur := \<sigma>', background := background s @ [bg]\<rparr>)))"
    then have "(k, t) \<in> set (tts_tasks \<sigma>')" by simp
    from m[OF this] show "status t = ''pending''"
    proof
      assume "k = task_id \<and> t = ?t" then show ?thesis by simp
    next
      assume a: "k \<noteq> task_id \<and> (k, t) \<in> set (tts_tasks (cur s))"
      with w have "(k, r) \<in> set (background s)" by (simp add: bg)
      with a inv show ?thesis unfolding service_invariant_def by blast
    qed
  next
    fix k r l t
    assume w: "(k, r, l) \<in> set (suspended (s\<lparr>cur := \<sigma>', background := background s @ [bg]\<rparr>))"
      and "(k, t) \<in> set (tts_tasks (cur (s\<lparr>cur := \<sigma>', background := background s @ [bg]\<rparr>)))"
    then have "(k, t) \<in> set (tts_tasks \<sigma>')" by simp
    from m[OF this] show "status t = ''processing''"
    proof
      assume "k = task_id \<and> t = ?t" with w c show ?thesis by simp
    next
      assume a: "k \<noteq> task_id \<and> (k, t) \<in> set (tts_tasks (cur s))"
      from w have "(k, r, l) \<in> set (suspended s)" by simp
      with a inv show ?thesis unfolding service_invariant_def by blast
    qed
  next
    have "distinct (map fst (background s) @ map fst (suspended s))"
      using inv by (simp add: service_invariant_def)
    then show "distinct (map fst (background (s\<lparr>cur := \<sigma>', background := background s @ [bg]\<rparr>)) @
        map fst (suspended (s\<lparr>cur := \<sigma>', background := background s @ [bg]\<rparr>)))"
      using fresh by (simp add: bg)
  qed
qed

lemma invariant_restrict:
  assumes inv: "service_invariant s"
    and \<sigma>': "tts_tasks \<sigma>' = AList.restrict A (tts_tasks (cur s))"
  shows "service_invariant (s\<lparr>cur := \<sigma>'\<rparr>)"
proof -
  have sub: "(k, t) \<in> set (tts_tasks (cur s))" if "(k, t) \<in> set (tts_tasks \<sigma>')" for k t
    using that by (auto simp: \<sigma>' AList.restrict_eq)
  have d: "distinct (map fst (tts_tasks \<sigma>'))"
    using inv by (simp add: \<sigma>' distinct_restr service_invariant_def)
  show ?thesis
    unfolding service_invariant_def
  proof (intro conjI allI impI)
    show "distinct (map fst (tts_tasks (cur (s\<lparr>cur := \<sigma>'\<rparr>))))" using d by simp
  next
    fix k t assume "(k, t) \<in> set (tts_tasks (cur (s\<lparr>cur := \<sigma>'\<rparr>)))"
    then have "(k, t) \<in> set (tts_tasks (cur s))" by (simp add: sub)
    with inv show "well_formed t" unfolding service_invariant_def by blast
  next
    fix k r t
    assume "(k, r) \<in> set (background (s\<lparr>cur := \<sigma>'\<rparr>))"
      and "(k, t) \<in> set (tts_tasks (cur (s\<lparr>cur := \<sigma>'\<rparr>)))"
    then have "(k, r) \<in> set (background s)" "(k, t) \<in> set (tts_tasks (cur s))"
      by (simp_all add: sub)
    with inv show "status t = ''pending''" unfolding service_invariant_def by blast
  next
    fix k r l t
    assume "(k, r, l) \<in> set (suspended (s\<lparr>cur := \<sigma>'\<rparr>))"
      and "(k, t) \<in> set (tts_tasks (cur (s\<lparr>cur := \<sigma>'\<rparr>)))"
    then have "(k, r, l) \<in> set (suspended s)" "(k, t) \<in> set (tts_tasks (cur s))"
      by (simp_all add: sub)
    with inv show "status t = ''processing''" unfolding service_invariant_def by blast
  next
    show "distinct (map fst (background (s\<lparr>cur := \<sigma>'\<rparr>)) @ map fst (suspended (s\<lparr>cur := \<sigma>'\<rparr>)))"
      using inv by (simp add: service_invariant_def)
  qed
qed

lemma invariant_same_tasks:
  assumes inv: "service_invariant s" and \<sigma>': "tts_tasks \<sigma>' = tts_tasks (cur s)"
  shows "service_invariant (s\<lparr>cur := \<sigma>'\<rparr>)"
  using inv unfolding service_invariant_def by (simp add: \<sigma>')

lemma delete_as_restrict: "AList.delete k d = AList.restrict (- {k}) d"
  by (auto simp: AList.delete_eq AList.restrict_eq intro: filter_cong)

lemma invariant_delete:
  assumes "service_invariant s" and "delete_tts_task task_id (cur s) = (\<sigma>', r)"
  shows "service_invariant (s\<lparr>cur := \<sigma>'\<rparr>)"
  using delete_tasks[OF assms(2)] assms(1)
  by (auto simp: delete_as_restrict intro: invariant_restrict invariant_same_tasks)

lemma invariant_sweep:
  assumes "service_invariant s" and "cleanup_old_tasks_tick now (cur s) = (\<sigma>', r)"
  shows "service_invariant (s\<lparr>cur := \<sigma>'\<rparr>)"
proof -
  from assms(2) obtain K where "tts_tasks \<sigma>' = AList.restrict (- K) (tts_tasks (cur s))"
    unfolding cleanup_old_tasks_tick_def by (blast dest: delete_loop_tasks)
  then show ?thesis using assms(1) by (rule invariant_restrict[rotated])
qed

lemma invariant_fewer_workers:
  assumes inv: "service_invariant s"
    and \<sigma>': "tts_tasks \<sigma>' = tts_tasks (cur s)"
    and B: "set B \<subseteq> set (background s)" and S: "set S \<subseteq> set (suspended s)"
    and d: "distinct (map fst B @ map fst S)"
  shows "service_invariant (s\<lparr>cur := \<sigma>', background := B, suspended := S\<rparr>)"
  unfolding service_invariant_def
proof (intro conjI allI impI)
  fix k r t
  assume "(k, r) \<in> set (background (s\<lparr>cur := \<sigma>', background := B, suspended := S\<rparr>))"
    and "(k, t) \<in> set (tts_tasks (cur (s\<lparr>cur := \<sigma>', background := B, suspended := S\<rparr>)))"
  then have "(k, r) \<in> set (background s)" "(k, t) \<in> set (tts_tasks (cur s))"
    using B by (auto simp: \<sigma>')
  with inv show "status t = ''pending''" unfolding service_invariant_def by blast
next
  fix k r l t
  assume "(k, r, l) \<in> set (suspended (s\<lparr>cur := \<sigma>', background := B, suspended := S\<rparr>))"
    and "(k, t) \<in> set (tts_tasks (cur (s\<lparr>cur := \<sigma>', background := B, suspended := S\<rparr>)))"
  then have "(k, r, l) \<in> set (suspended s)" "(k, t) \<in> set (tts_tasks (cur s))"
    using S by (auto simp: \<sigma>')
  with inv show "status t = ''processing''" unfolding service_invariant_def by blast
qed (use inv d in \<open>simp_all add: service_invariant_def \<sigma>'\<close>)

lemma invariant_worker_update:
  assumes inv: "service_invariant s"
    and \<sigma>': "tts_tasks \<sigma>' = AList.update k t' (tts_tasks (cur s))"
    and wf: "well_formed t'"
    and B: "set B \<subseteq> set (background s)" and S: "set S \<subseteq> insert w (set (suspended s))"
    and kB: "k \<notin> fst ` set B"
    and kS: "\<And>r l. (k, r, l) \<in> set S \<Longrightarrow> status t' = ''processing''"
    and w: "fst w = k"
    and d: "distinct (map fst B @ map fst S)"
  shows "service_invariant (s\<lparr>cur := \<sigma>', background := B, suspended := S\<rparr>)"
proof -
  let ?s' = "s\<lparr>cur := \<sigma>', background := B, suspended := S\<rparr>"
  have ds: "distinct (map fst (tts_tasks (cur s)))"
    using inv by (simp add: service_invariant_def)
  have m: "(j = k \<and> t = t') \<or> (j \<noteq> k \<and> (j, t) \<in> set (tts_tasks (cur s)))"
    if "(j, t) \<in> set (tts_tasks \<sigma>')" for j t
    using in_update_cases[OF ds that[unfolded \<sigma>']] .
  show ?thesis
    unfolding service_invariant_def
  proof (intro conjI allI impI)
    show "distinct (map fst (tts_tasks (cur ?s')))"
      using ds by (simp add: \<sigma>' distinct_update)
  next
    fix j t assume "(j, t) \<in> set (tts_tasks (cur ?s'))"
    then have "(j, t) \<in> set (tts_tasks \<sigma>')" by simp
    from m[OF this] show "well_formed t"
      using inv wf by (auto simp: service_invariant_def)
  next
    fix j r t
    assume a: "(j, r) \<in> set (background ?s')" and "(j, t) \<in> set (tts_tasks (cur ?s'))"
    then have "(j, t) \<in> set (tts_tasks \<sigma>')" by simp
    from m[OF this] show "status t = ''pending''"
    proof
      assume "j = k \<and> t = t'"
      with a kB show ?thesis by force
    next
      assume b: "j \<noteq> k \<and> (j, t) \<in> set (tts_tasks (cur s))"
      from a B have "(j, r) \<in> set (background s)" by auto
      with b inv show ?thesis unfolding service_invariant_def by blast
    qed
  next
    fix j r l t
    assume a: "(j, r, l) \<in> set (suspended ?s')" and "(j, t) \<in> set (tts_tasks (cur ?s'))"
    then have "(j, t) \<in> set (tts_tasks \<sigma>')" by simp
    from m[OF this] show "status t = ''processing''"
    proof
      assume "j = k \<and> t = t'"
      with a kS show ?thesis by auto
    next
      assume b: "j \<noteq> k \<and> (j, t) \<in> set (tts_tasks (cur s))"
      with a S w have "(j, r, l) \<in> set (suspended s)" by auto
      with b inv show ?thesis unfolding service_invariant_def by blast
    qed
  next
    show "distinct (map fst (background ?s') @ map fst (suspended ?s'))"
      using d by simp
  qed
qed

lemma distinct_workers_remove_background:
  assumes "distinct (map fst B @ map fst S)"
  shows "distinct (map fst (remove1 x B) @ map fst S)"
  using assms by (auto simp: distinct_map_remove1 dest: set_remove1_subset[THEN subsetD])

lemma distinct_workers_remove_suspended:
  assumes "distinct (map fst B @ map fst S)"
  shows "distinct (map fst B @ map fst (remove1 x S))"
  using assms by (auto simp: distinct_map_remove1 dest: set_remove1_subset[THEN subsetD])

lemma well_formed_failed:
  assumes "well_formed t" and "status t = ''pending'' \<or> status t = ''processing''"
  shows "well_formed (t\<lparr>status := ''failed'', completed_at := Some now, error := Some m\<rparr>)"
  using assms by (auto simp: well_formed_def)

lemma well_formed_completed:
  assumes "well_formed t" and "status t = ''processing''"
  shows "well_formed (t\<lparr>status := ''completed'', completed_at := Some now, output_file := Some p\<rparr>)"
  using assms by (auto simp: well_formed_def)

lemma well_formed_processing:
  assumes "well_formed t" and "status t = ''pending''"
  shows "well_formed (t\<lparr>status := ''processing''\<rparr>)"
  using assms by (auto simp: well_formed_def)

lemma invariant_start_raise:
  assumes inv: "service_invariant s"
    and w: "(task_id, req) \<in> set (background s)"
    and op: "process_tts_task_begin task_id req now (cur s) = (\<sigma>', Inl e)"
  shows "service_invariant (s\<lparr>cur := \<sigma>', background := remove1 (task_id, req) (background s)\<rparr>)"
proof -
  let ?B = "remove1 (task_id, req) (background s)"
  have dw: "distinct (map fst (background s) @ map fst (suspended s))"
    using inv by (simp add: service_invariant_def)
  have d: "distinct (map fst ?B @ map fst (suspended s))"
    using dw by (rule distinct_workers_remove_background)
  have kB: "task_id \<notin> fst ` set ?B"
    using notin_map_remove1[of fst "background s" "(task_id, req)"] dw w by simp
  have kS: "\<And>r l. (task_id, r, l) \<notin> set (suspended s)"
    using dw w by force
  from begin_tasks[OF op]
  have "service_invariant (s\<lparr>cur := \<sigma>', background := ?B, suspended := suspended s\<rparr>)"
  proof (elim disjE exE conjE)
    assume "tts_tasks \<sigma>' = tts_tasks (cur s)"
    then show ?thesis
      using inv d
      by (intro invariant_fewer_workers) (auto dest: set_remove1_subset[THEN subsetD])
  next
    fix t m
    assume t: "map_of (tts_tasks (cur s)) task_id = Some t"
      and u: "tts_tasks \<sigma>' = AList.update task_id
        (t\<lparr>status := ''failed'', completed_at := Some now, error := Some m\<rparr>) (tts_tasks (cur s))"
    from t have mem: "(task_id, t) \<in> set (tts_tasks (cur s))" by (rule map_of_SomeD)
    with inv w have "well_formed t" "status t = ''pending''"
      unfolding service_invariant_def by blast+
    then have wf: "well_formed (t\<lparr>status := ''failed'', completed_at := Some now, error := Some m\<rparr>)"
      by (simp add: well_formed_failed)
    show ?thesis
    proof (rule invariant_worker_update[OF inv u wf _ _ kB _ _ d, of "(task_id, req, no_locals)"])
      show "set ?B \<subseteq> set (background s)" by (rule set_remove1_subset)
    qed (use kS in auto)
  qed auto
  then show ?thesis by simp
qed

lemma invariant_start_await:
  assumes inv: "service_invariant s"
    and w: "(task_id, req) \<in> set (background s)"
    and op: "process_tts_task_begin task_id req now (cur s) = (\<sigma>', Inr l)"
  shows "service_invariant (s\<lparr>cur := \<sigma>', background := remove1 (task_id, req) (background s),
            suspended := suspended s @ [(task_id, req, l)]\<rparr>)"
proof -
  let ?B = "remove1 (task_id, req) (background s)"
  have dw: "distinct (map fst (background s) @ map fst (suspended s))"
    using inv by (simp add: service_invariant_def)
  have kB: "task_id \<notin> fst ` set ?B"
    using notin_map_remove1[of fst "background s" "(task_id, req)"] dw w by simp
  have kS: "task_id \<notin> fst ` set (suspended s)"
    using dw w by force
  have d: "distinct (map fst ?B @ map fst (suspended s @ [(task_id, req, l)]))"
    using distinct_workers_remove_background[OF dw, of "(task_id, req)"] kB kS by auto
  from begin_tasks[OF op] obtain t where t: "map_of (tts_tasks (cur s)) task_id = Some t"
    and u: "tts_tasks \<sigma>' = AList.update task_id (t\<lparr>status := ''processing''\<rparr>) (tts_tasks (cur s))"
    by auto
  from t have mem: "(task_id, t) \<in> set (tts_tasks (cur s))" by (rule map_of_SomeD)
  with inv w have "well_formed t" "status t = ''pending''"
    unfolding service_invariant_def by blast+
  then have wf: "well_formed (t\<lparr>status := ''processing''\<rparr>)"
    by (simp add: well_formed_processing)
  show ?thesis
  proof (rule invariant_worker_update[OF inv u wf _ _ kB _ _ d, of "(task_id, req, l)"])
    show "set ?B \<subseteq> set (background s)" by (rule set_remove1_subset)
  qed auto
qed

lemma invariant_finish:
  assumes inv: "service_invariant s"
    and w: "(task_id, req, l) \<in> set (suspended s)"
    and op: "process_tts_task_resume task_id now outcome l (cur s) = (\<sigma>', r)"
  shows "service_invariant (s\<lparr>cur := \<sigma>', suspended := remove1 (task_id, req, l) (suspended s)\<rparr>)"
proof -
  let ?S = "remove1 (task_id, req, l) (suspended s)"
  have eq: "s\<lparr>cur := \<sigma>', suspended := ?S\<rparr> = s\<lparr>cur := \<sigma>', background := background s, suspended := ?S\<rparr>"
    by simp
  have dw: "distinct (map fst (background s) @ map fst (suspended s))"
    using inv by (simp add: service_invariant_def)
  have d: "distinct (map fst (background s) @ map fst ?S)"
    using dw by (rule distinct_workers_remove_suspended)
  have kS: "task_id \<notin> fst ` set ?S"
    using notin_map_remove1[of fst "suspended s" "(task_id, req, l)"] dw w by simp
  then have kS': "\<And>r' l'. (task_id, r', l') \<notin> set ?S" by force
  have kB: "task_id \<notin> fst ` set (background s)"
    using dw w by force
  have sub: "set ?S \<subseteq> insert (task_id, req, l) (set (suspended s))"
    using set_remove1_subset[of "(task_id, req, l)" "suspended s"] by auto
  from resume_tasks[OF op] show ?thesis
  proof (elim disjE exE conjE)
    assume "tts_tasks \<sigma>' = tts_tasks (cur s)"
    then show ?thesis
      unfolding eq using inv d
      by (intro invariant_fewer_workers) (auto dest: set_remove1_subset[THEN subsetD])
  next
    fix t p
    assume t: "map_of (tts_tasks (cur s)) task_id = Some t"
      and u: "tts_tasks \<sigma>' = AList.update task_id
        (t\<lparr>status := ''completed'', completed_at := Some now, output_file := Some p\<rparr>) (tts_tasks (cur s))"
    from t have mem: "(task_id, t) \<in> set (tts_tasks (cur s))" by (rule map_of_SomeD)
    with inv w have "well_formed t" "status t = ''processing''"
      unfolding service_invariant_def by blast+
    then have wf: "well_formed (t\<lparr>status := ''completed'', completed_at := Some now, output_file := Some p\<rparr>)"
      by (simp add: well_formed_completed)
    show ?thesis
      unfolding eq
      by (rule invariant_worker_update[OF inv u wf _ sub kB _ _ d]) (use kS' in auto)
  next
    fix t m
    assume t: "map_of (tts_tasks (cur s)) task_id = Some t"
      and u: "tts_tasks \<sigma>' = AList.update task_id
        (t\<lparr>status := ''failed'', completed_at := Some now, error := Some m\<rparr>) (tts_tasks (cur s))"
    from t have mem: "(task_id, t) \<in> set (tts_tasks (cur s))" by (rule map_of_SomeD)
    with inv w have "well_formed t" "status t = ''processing''"
      unfolding service_invariant_def by blast+
    then have wf: "well_formed (t\<lparr>status := ''failed'', completed_at := Some now, error := Some m\<rparr>)"
      by (simp add: well_formed_failed)
    show ?thesis
      unfolding eq
      by (rule invariant_worker_update[OF inv u wf _ sub kB _ _ d]) (use kS' in auto)
  qed
qed

lemma invariant_step:
  assumes "step s s'" and "service_invariant s"
  shows "service_invariant s'"
  using assms
proof (induction rule: step.induct)
  case (environment s f')
  then show ?case by (intro invariant_same_tasks) simp_all
qed (simp_all add: invariant_submit invariant_start_raise invariant_start_await
      invariant_finish invariant_delete invariant_sweep)

lemma reachable_invariant: "reachable s \<Longrightarrow> service_invariant s"
  by (induction rule: reachable.induct) (auto intro: invariant_start invariant_step)

section \<open>Status transitions\<close>

lemma distinct_same_value:
  "distinct (map fst d) \<Longrightarrow> (k, t) \<in> set d \<Longrightarrow> (k, t') \<in> set d \<Longrightarrow> t = t'"
  by (metis map_of_is_SomeI option.inject)

lemma status_moves_subset:
  assumes "distinct (map fst d)" and "set d' \<subseteq> set d"
  shows "status_moves d d'"
  unfolding status_moves_def
proof (intro conjI allI impI)
  fix k t' assume "(k, t') \<in> set d'" "k \<notin> fst ` set d"
  with assms(2) show "status t' = ''pending''" by force
next
  fix k t t' assume "(k, t) \<in> set d" "(k, t') \<in> set d'"
  with assms have "t = t'" by (blast intro: distinct_same_value)
  then show "status t' = status t \<or> status_transition (status t) (status t')" by simp
qed

lemma status_moves_update:
  assumes d: "distinct (map fst d)"
    and new: "k \<notin> fst ` set d \<Longrightarrow> status t' = ''pending''"
    and old: "\<And>t. (k, t) \<in> set d \<Longrightarrow> status t' = status t \<or> status_transition (status t) (status t')"
  shows "status_moves d (AList.update k t' d)"
  unfolding status_moves_def
proof (intro conjI allI impI)
  fix j u assume a: "(j, u) \<in> set (AList.update k t' d)" "j \<notin> fst ` set d"
  from in_update_cases[OF d a(1)] a(2) new show "status u = ''pending''" by force
next
  fix j t u assume a: "(j, t) \<in> set d" "(j, u) \<in> set (AList.update k t' d)"
  from in_update_cases[OF d a(2)]
  show "status u = status t \<or> status_transition (status t) (status u)"
  proof
    assume "j = k \<and> u = t'" with a(1) old show ?thesis by blast
  next
    assume "j \<noteq> k \<and> (j, u) \<in> set d"
    with a(1) d have "t = u" by (blast intro: distinct_same_value)
    then show ?thesis by simp
  qed
qed

lemma status_moves_step:
  assumes "step s s'" and inv: "service_invariant s"
  shows "status_moves (tts_tasks (cur s)) (tts_tasks (cur s'))"
  using assms
proof (induction rule: step.induct)
  case (submit task_id s now req \<sigma>' resp bg)
  then have d: "distinct (map fst (tts_tasks (cur s)))" by (simp add: service_invariant_def)
  from submit have "tts_tasks \<sigma>' = AList.update task_id
      \<lparr>status = ''pending'', created_at = now, request = req,
       completed_at = None, output_file = None, error = None\<rparr> (tts_tasks (cur s))"
    by (auto simp: text_to_speech_def Let_def)
  moreover have "\<And>t. (task_id, t) \<notin> set (tts_tasks (cur s))" using submit(1) by force
  ultimately show ?case by (auto intro!: status_moves_update[OF d])
next
  case (start_raise task_id req s now \<sigma>' e)
  then have d: "distinct (map fst (tts_tasks (cur s)))" by (simp add: service_invariant_def)
  from begin_tasks[OF start_raise(2)] show ?case
  proof (elim disjE exE conjE)
    fix t m
    assume t: "map_of (tts_tasks (cur s)) task_id = Some t"
      and u: "tts_tasks \<sigma>' = AList.update task_id
        (t\<lparr>status := ''failed'', completed_at := Some now, error := Some m\<rparr>) (tts_tasks (cur s))"
    have "status t0 = ''pending''" if "(task_id, t0) \<in> set (tts_tasks (cur s))" for t0
      using that start_raise(1,3) unfolding service_invariant_def by blast
    moreover have "task_id \<in> fst ` set (tts_tasks (cur s))"
      using map_of_SomeD[OF t] by force
    ultimately show ?thesis
      by (auto simp: u status_transition_def intro!: status_moves_update[OF d])
  qed (simp_all add: status_moves_subset[OF d])
next
  case (start_await task_id req s now \<sigma>' l)
  then have d: "distinct (map fst (tts_tasks (cur s)))" by (simp add: service_invariant_def)
  from begin_tasks[OF start_await(2)] show ?case
  proof (elim disjE exE conjE)
    fix t l'
    assume t: "map_of (tts_tasks (cur s)) task_id = Some t"
      and u: "tts_tasks \<sigma>' = AList.update task_id (t\<lparr>status := ''processing''\<rparr>) (tts_tasks (cur s))"
    have "status t0 = ''pending''" if "(task_id, t0) \<in> set (tts_tasks (cur s))" for t0
      using that start_await(1,3) unfolding service_invariant_def by blast
    moreover have "task_id \<in> fst ` set (tts_tasks (cur s))"
      using map_of_SomeD[OF t] by force
    ultimately show ?thesis
      by (auto simp: u status_transition_def spec_transition_def intro!: status_moves_update[OF d])
  qed simp_all
next
  case (finish task_id req l s now outcome \<sigma>' r)
  then have d: "distinct (map fst (tts_tasks (cur s)))" by (simp add: service_invariant_def)
  have p: "status t0 = ''processing''" if "(task_id, t0) \<in> set (tts_tasks (cur s))" for t0
    using that finish(1,3) unfolding service_invariant_def by blast
  from resume_tasks[OF finish(2)] show ?case
  proof (elim disjE exE conjE)
    fix t q
    assume t: "map_of (tts_tasks (cur s)) task_id = Some t"
      and u: "tts_tasks \<sigma>' = AList.update task_id
        (t\<lparr>status := ''completed'', completed_at := Some now, output_file := Some q\<rparr>) (tts_tasks (cur s))"
    have "task_id \<in> fst ` set (tts_tasks (cur s))"
      using map_of_SomeD[OF t] by force
    with p show ?thesis
      by (auto simp: u status_transition_def spec_transition_def intro!: status_moves_update[OF d])
  next
    fix t m
    assume t: "map_of (tts_tasks (cur s)) task_id = Some t"
      and u: "tts_tasks \<sigma>' = AList.update task_id
        (t\<lparr>status := ''failed'', completed_at := Some now, error := Some m\<rparr>) (tts_tasks (cur s))"
    have "task_id \<in> fst ` set (tts_tasks (cur s))"
      using map_of_SomeD[OF t] by force
    with p show ?thesis
      by (auto simp: u status_transition_def spec_transition_def intro!: status_moves_update[OF d])
  qed (simp_all add: status_moves_subset[OF d])
next
  case (delete task_id s \<sigma>' r)
  then have d: "distinct (map fst (tts_tasks (cur s)))" by (simp add: service_invariant_def)
  from delete_tasks[OF delete(1)] have "set (tts_tasks \<sigma>') \<subseteq> set (tts_tasks (cur s))"
    by (auto simp: AList.delete_eq)
  then show ?case by (simp add: status_moves_subset[OF d])
next
  case (sweep now s \<sigma>' r)
  then have d: "distinct (map fst (tts_tasks (cur s)))" by (simp add: service_invariant_def)
  from sweep(1) obtain K where "tts_tasks \<sigma>' = AList.restrict (- K) (tts_tasks (cur s))"
    unfolding cleanup_old_tasks_tick_def by (blast dest: delete_loop_tasks)
  then have "set (tts_tasks \<sigma>') \<subseteq> set (tts_tasks (cur s))"
    by (auto simp: AList.restrict_eq)
  then show ?case by (simp add: status_moves_subset[OF d])
qed (simp_all add: status_moves_subset service_invariant_def)

section \<open>The sweeper's loop\<close>

lemma timedelta_days_ge_1:
  "timedelta_days current_time created \<ge> 1 \<longleftrightarrow> current_time - created \<ge> microseconds_per_day"
proof -
  have "0 < (current_time - created) div microseconds_per_day \<longleftrightarrow>
      microseconds_per_day \<le> current_time - created"
    by (rule pos_imp_zdiv_pos_iff) (simp add: microseconds_per_day_def)
  then show ?thesis by (simp add: timedelta_days_def int_one_le_iff_zero_less)
qed

lemma restrict_all: "AList.restrict UNIV d = d"
  by (simp add: AList.restrict_eq)

lemma restrict_delete: "AList.restrict (- K) (AList.delete k d) = AList.restrict (- insert k K) d"
  by (auto simp: AList.restrict_eq AList.delete_eq case_prod_unfold intro: filter_cong)

lemma delete_loop_again:
  "distinct ks \<Longrightarrow> delete_loop ks \<sigma> = (\<sigma>', r) \<Longrightarrow>
     \<exists>K. tts_tasks \<sigma>' = AList.restrict (- K) (tts_tasks \<sigma>) \<and>
         delete_loop (filter (\<lambda>k. k \<notin> K) ks) \<sigma>' = (\<sigma>', r)"
proof (induction ks arbitrary: \<sigma>)
  case Nil
  then have "tts_tasks \<sigma>' = AList.restrict (- {}) (tts_tasks \<sigma>) \<and>
      delete_loop (filter (\<lambda>k. k \<notin> {}) []) \<sigma>' = (\<sigma>', r)"
    by (simp add: restrict_all)
  then show ?case by blast
next
  case (Cons k ks)
  let ?p = "''temp_tts_'' @ k"
  show ?case
  proof (cases "remove_if_exists (fs \<sigma>) ?p")
    case (Inl e)
    with Cons.prems have "tts_tasks \<sigma>' = AList.restrict (- {}) (tts_tasks \<sigma>) \<and>
      delete_loop (filter (\<lambda>k. k \<notin> {}) (k # ks)) \<sigma>' = (\<sigma>', r)"
      by (auto simp: restrict_all)
    then show ?thesis by blast
  next
    case (Inr f')
    then have f': "existing f' = existing (fs \<sigma>) - {?p}"
      by (simp add: remove_if_exists_tasks)
    show ?thesis
    proof (cases "k \<in> fst ` set (tts_tasks \<sigma>)")
      case False
      with Cons.prems Inr have s: "\<sigma>' = \<sigma>\<lparr>fs := f'\<rparr>" and r: "r = Inl (KeyError k)"
        by (auto simp: dict_del_def)
      have "remove_if_exists f' ?p = Inr f'"
        by (simp add: remove_if_exists_def os_path_exists_def f')
      with False have "delete_loop (k # ks) \<sigma>' = (\<sigma>', r)"
        by (simp add: s r dict_del_def)
      then have "tts_tasks \<sigma>' = AList.restrict (- {}) (tts_tasks \<sigma>) \<and>
        delete_loop (filter (\<lambda>k. k \<notin> {}) (k # ks)) \<sigma>' = (\<sigma>', r)"
        by (simp add: restrict_all s)
      then show ?thesis by blast
    next
      case True
      with Cons.prems Inr
      have "delete_loop ks (\<sigma>\<lparr>fs := f', tts_tasks := AList.delete k (tts_tasks \<sigma>)\<rparr>) = (\<sigma>', r)"
        by (simp add: dict_del_def)
      from Cons.IH[OF _ this] Cons.prems(1) obtain K where
        K: "tts_tasks \<sigma>' = AList.restrict (- K) (AList.delete k (tts_tasks \<sigma>))"
          "delete_loop (filter (\<lambda>k. k \<notin> K) ks) \<sigma>' = (\<sigma>', r)" by auto
      have "filter (\<lambda>j. j \<notin> insert k K) (k # ks) = filter (\<lambda>j. j \<notin> K) ks"
        using Cons.prems(1) by (auto intro: filter_cong)
      with K have "tts_tasks \<sigma>' = AList.restrict (- insert k K) (tts_tasks \<sigma>) \<and>
        delete_loop (filter (\<lambda>j. j \<notin> insert k K) (k # ks)) \<sigma>' = (\<sigma>', r)"
        by (simp add: restrict_delete)
      then show ?thesis by blast
    qed
  qed
qed

lemma tasks_to_delete_restrict:
  "tasks_to_delete now (AList.restrict (- K) d) = filter (\<lambda>k. k \<notin> K) (tasks_to_delete now d)"
  by (induction d) (auto simp: tasks_to_delete_def AList.restrict_eq)

lemma distinct_tasks_to_delete:
  "distinct (map fst d) \<Longrightarrow> distinct (tasks_to_delete now d)"
  unfolding tasks_to_delete_def by (rule distinct_map_filter)

lemma tick_twice:
  assumes "distinct (map fst (tts_tasks \<sigma>))"
  shows "cleanup_old_tasks_tick now (fst (cleanup_old_tasks_tick now \<sigma>)) = cleanup_old_tasks_tick now \<sigma>"
proof -
  obtain \<sigma>' r where t: "cleanup_old_tasks_tick now \<sigma> = (\<sigma>', r)" by (cases "cleanup_old_tasks_tick now \<sigma>")
  then have "delete_loop (tasks_to_delete now (tts_tasks \<sigma>)) \<sigma> = (\<sigma>', r)"
    by (simp add: cleanup_old_tasks_tick_def)
  from delete_loop_again[OF distinct_tasks_to_delete[OF assms] this]
  obtain K where "tts_tasks \<sigma>' = AList.restrict (- K) (tts_tasks \<sigma>)"
    "delete_loop (filter (\<lambda>k. k \<notin> K) (tasks_to_delete now (tts_tasks \<sigma>))) \<sigma>' = (\<sigma>', r)" by blast
  then have "cleanup_old_tasks_tick now \<sigma>' = (\<sigma>', r)"
    by (simp add: cleanup_old_tasks_tick_def tasks_to_delete_restrict)
  with t show ?thesis by simp
qed

lemma delete_loop_removes:
  "distinct ks \<Longrightarrow> set ks \<subseteq> fst ` set (tts_tasks \<sigma>) \<Longrightarrow>
   \<forall>k\<in>set ks. unremovable (fs \<sigma>) (''temp_tts_'' @ k) = None \<Longrightarrow>
   delete_loop ks \<sigma> =
     (\<sigma>\<lparr>tts_tasks := AList.restrict (- set ks) (tts_tasks \<sigma>),
        fs := (fs \<sigma>)\<lparr>existing := existing (fs \<sigma>) - (\<lambda>k. ''temp_tts_'' @ k) ` set ks\<rparr>\<rparr>, Inr ())"
proof (induction ks arbitrary: \<sigma>)
  case Nil
  then show ?case by (simp add: restrict_all)
next
  case (Cons k ks)
  let ?p = "''temp_tts_'' @ k"
  let ?f = "(fs \<sigma>)\<lparr>existing := existing (fs \<sigma>) - {?p}\<rparr>"
  let ?\<sigma>1 = "\<sigma>\<lparr>fs := ?f, tts_tasks := AList.delete k (tts_tasks \<sigma>)\<rparr>"
  from Cons.prems have ok: "unremovable (fs \<sigma>) ?p = None" by simp
  have rm: "remove_if_exists (fs \<sigma>) ?p = Inr ?f"
  proof (cases "?p \<in> existing (fs \<sigma>)")
    case True
    with ok show ?thesis by (simp add: remove_if_exists_def os_path_exists_def shutil_rmtree_def)
  next
    case False
    then have "existing (fs \<sigma>) - {?p} = existing (fs \<sigma>)" by blast
    with False show ?thesis by (simp add: remove_if_exists_def os_path_exists_def)
  qed
  from Cons.prems have k: "k \<in> fst ` set (tts_tasks \<sigma>)" by simp
  have step: "delete_loop (k # ks) \<sigma> = delete_loop ks ?\<sigma>1"
    using rm k by (simp add: dict_del_def)
  have keys: "set ks \<subseteq> fst ` set (tts_tasks ?\<sigma>1)"
  proof
    fix j assume j: "j \<in> set ks"
    with Cons.prems have "j \<in> fst ` set (tts_tasks \<sigma>)" "j \<noteq> k" by auto
    then show "j \<in> fst ` set (tts_tasks ?\<sigma>1)"
      by (auto simp: AList.delete_eq image_iff)
  qed
  have "delete_loop (k # ks) \<sigma> = delete_loop ks ?\<sigma>1" by (rule step)
  also have "\<dots> =
     (?\<sigma>1\<lparr>tts_tasks := AList.restrict (- set ks) (tts_tasks ?\<sigma>1),
        fs := (fs ?\<sigma>1)\<lparr>existing := existing (fs ?\<sigma>1) - (\<lambda>k. ''temp_tts_'' @ k) ` set ks\<rparr>\<rparr>, Inr ())"
    using Cons.prems keys by (intro Cons.IH) simp_all
  also have "\<dots> =
     (\<sigma>\<lparr>tts_tasks := AList.restrict (- set (k # ks)) (tts_tasks \<sigma>),
        fs := (fs \<sigma>)\<lparr>existing := existing (fs \<sigma>) - (\<lambda>k. ''temp_tts_'' @ k) ` set (k # ks)\<rparr>\<rparr>, Inr ())"
    by (simp add: restrict_delete Diff_insert2[symmetric])
  finally show ?case .
qed

lemma delete_loop_append:
  "delete_loop (pre @ rest) \<sigma> =
     (case delete_loop pre \<sigma> of
        (\<sigma>', Inr u) \<Rightarrow> delete_loop rest \<sigma>'
      | (\<sigma>', Inl e) \<Rightarrow> (\<sigma>', Inl e))"
  by (induction pre arbitrary: \<sigma>) (auto simp: Let_def split: sum.splits)

lemma delete_loop_stops:
  assumes d: "distinct (pre @ [k])"
    and keys: "set pre \<subseteq> fst ` set (tts_tasks \<sigma>)"
    and ok: "\<forall>j\<in>set pre. unremovable (fs \<sigma>) (''temp_tts_'' @ j) = None"
    and ex: "''temp_tts_'' @ k \<in> existing (fs \<sigma>)"
    and bad: "unremovable (fs \<sigma>) (''temp_tts_'' @ k) = Some m"
  shows "delete_loop (pre @ k # post) \<sigma> =
     (\<sigma>\<lparr>tts_tasks := AList.restrict (- set pre) (tts_tasks \<sigma>),
        fs := (fs \<sigma>)\<lparr>existing := existing (fs \<sigma>) - (\<lambda>k. ''temp_tts_'' @ k) ` set pre\<rparr>\<rparr>,
      Inl (OSError m))"
proof -
  from d have dp: "distinct pre" and kp: "k \<notin> set pre" by simp_all
  from kp have "''temp_tts_'' @ k \<notin> (\<lambda>k. ''temp_tts_'' @ k) ` set pre" by auto
  with ex bad show ?thesis
    by (simp add: delete_loop_append delete_loop_removes[OF dp keys ok]
        remove_if_exists_def os_path_exists_def shutil_rmtree_def)
qed

lemma set_tasks_to_delete:
  "set (tasks_to_delete now d) = {k. \<exists>t. (k, t) \<in> set d \<and> timedelta_days now (created_at t) \<ge> 1}"
  by (auto simp: tasks_to_delete_def image_iff)

lemma restrict_not_expired:
  assumes "distinct (map fst d)"
  shows "AList.restrict (- set (tasks_to_delete now d)) d =
     filter (\<lambda>(task_id, t). \<not> timedelta_days now (created_at t) \<ge> 1) d"
proof -
  have key: "(k \<in> set (tasks_to_delete now d)) = (1 \<le> timedelta_days now (created_at t))"
    if "(k, t) \<in> set d" for k t
  proof
    assume "k \<in> set (tasks_to_delete now d)"
    then obtain t' where t': "(k, t') \<in> set d" "1 \<le> timedelta_days now (created_at t')"
      unfolding set_tasks_to_delete by blast
    from distinct_same_value[OF assms that t'(1)] t'(2)
    show "1 \<le> timedelta_days now (created_at t)" by simp
  next
    assume "1 \<le> timedelta_days now (created_at t)"
    with that show "k \<in> set (tasks_to_delete now d)"
      unfolding set_tasks_to_delete by blast
  qed
  have "filter (\<lambda>p. fst p \<in> - set (tasks_to_delete now d)) d =
      filter (\<lambda>p. \<not> timedelta_days now (created_at (snd p)) \<ge> 1) d"
  proof (rule filter_cong[OF refl])
    fix p assume "p \<in> set d"
    then have "(fst p, snd p) \<in> set d" by simp
    from key[OF this]
    show "(fst p \<in> - set (tasks_to_delete now d)) = (\<not> timedelta_days now (created_at (snd p)) \<ge> 1)"
      by simp
  qed
  then show ?thesis
    by (simp add: AList.restrict_eq case_prod_unfold)
qed

lemma remove_if_exists_ok:
  assumes "unremovable f p = None"
  shows "remove_if_exists f p = Inr (f\<lparr>existing := existing f - {p}\<rparr>)"
proof (cases "p \<in> existing f")
  case True
  with assms show ?thesis by (simp add: remove_if_exists_def os_path_exists_def shutil_rmtree_def)
next
  case False
  then have "existing f - {p} = existing f" by blast
  with False show ?thesis by (simp add: remove_if_exists_def os_path_exists_def)
qed

lemma begin_suspended_temp_dir:
  assumes "process_tts_task_begin task_id req now \<sigma> = (\<sigma>', Inr l)"
  shows "temp_dir l = Some (''temp_tts_'' @ task_id)"
  using assms unfolding process_tts_task_begin_def try_before_await_closed
  by (auto simp: Let_def no_locals_def split: if_splits option.splits prod.splits)


lemma tasks_to_delete_later:
  assumes "now \<le> now'"
    and "\<forall>(task_id, t)\<in>set d. now - created_at t < microseconds_per_day \<longrightarrow>
           now' - created_at t < microseconds_per_day"
  shows "tasks_to_delete now' d = tasks_to_delete now d"
proof -
  have "(1 \<le> timedelta_days now' (created_at (snd p))) = (1 \<le> timedelta_days now (created_at (snd p)))"
    if "p \<in> set d" for p
  proof (cases "now - created_at (snd p) < microseconds_per_day")
    case True
    with assms(2) that have "now' - created_at (snd p) < microseconds_per_day"
      by (auto simp: case_prod_unfold)
    with True show ?thesis by (simp add: timedelta_days_ge_1)
  next
    case False
    with assms(1) have "\<not> now' - created_at (snd p) < microseconds_per_day" by simp
    with False show ?thesis by (simp add: timedelta_days_ge_1)
  qed
  then have "filter (\<lambda>p. 1 \<le> timedelta_days now' (created_at (snd p))) d =
      filter (\<lambda>p. 1 \<le> timedelta_days now (created_at (snd p))) d"
    by (intro filter_cong refl)
  then show ?thesis by (simp add: tasks_to_delete_def case_prod_unfold)
qed

section \<open>The concrete runs, evaluated\<close>

lemma submitted_state_eq:
  "submitted_state = \<lparr>tts_tasks = [(''a'', pending_task)], fs = no_files\<rparr>"
  by (simp add: submitted_state_def text_to_speech_def empty_state_def pending_task_def)

lemma begin_submitted:
  "process_tts_task_begin ''a'' hello 1 submitted_state =
     (\<lparr>tts_tasks = [(''a'', processing_task)],
       fs = \<lparr>existing = {''temp_tts_a''}, unremovable = Map.empty, uncreatable = Map.empty\<rparr>\<rparr>, Inr frame_a)"
  unfolding process_tts_task_begin_def try_before_await_closed
  by (simp add: Let_def submitted_state_eq no_files_def processing_task_def frame_a_def no_locals_def
      os_path_join_def hello_def default_request_def)

lemma processing_state_eq:
  "processing_state = \<lparr>tts_tasks = [(''a'', processing_task)],
       fs = \<lparr>existing = {''temp_tts_a''}, unremovable = Map.empty, uncreatable = Map.empty\<rparr>\<rparr>"
  by (simp add: processing_state_def begin_submitted)

lemma completed_state_eq:
  "completed_state = \<lparr>tts_tasks = [(''a'', completed_task)],
       fs = \<lparr>existing = {''temp_tts_a''}, unremovable = Map.empty, uncreatable = Map.empty\<rparr>\<rparr>"
  by (simp add: completed_state_def processing_state_eq process_tts_task_resume_def
      try_after_await_def set_completed_def frame_a_def completed_task_def processing_task_def)

lemma try_before_await_submitted:
  "try_before_await ''a'' hello no_locals submitted_state = (None, frame_a, processing_state)"
  unfolding try_before_await_closed
  by (simp add: Let_def submitted_state_eq processing_state_eq no_files_def frame_a_def
      no_locals_def os_path_join_def hello_def default_request_def processing_task_def)

lemma reachable_service_started: "reachable service_started"
  by (rule reachable.start) (simp_all add: service_started_def empty_state_def)

lemma step_service_submitted: "step service_started service_submitted"
proof -
  have "step service_started
      (service_started\<lparr>cur := submitted_state, background := background service_started @ [(''a'', hello)]\<rparr>)"
    by (rule step.submit[where task_id = "''a''" and now = 0 and req = hello])
      (simp_all add: service_started_def empty_state_def submitted_state_def text_to_speech_def)
  then show ?thesis by (simp add: service_started_def service_submitted_def)
qed

lemma reachable_service_submitted: "reachable service_submitted"
proof -
  have "reachable service_started"
    by (rule reachable.start) (simp_all add: service_started_def empty_state_def)
  moreover have "step service_started
      (service_started\<lparr>cur := submitted_state, background := background service_started @ [(''a'', hello)]\<rparr>)"
    by (rule step.submit[where task_id = "''a''" and now = 0 and req = hello])
      (simp_all add: service_started_def empty_state_def submitted_state_def text_to_speech_def)
  moreover have "service_started\<lparr>cur := submitted_state, background := background service_started @ [(''a'', hello)]\<rparr>
      = service_submitted"
    by (simp add: service_started_def service_submitted_def)
  ultimately show ?thesis by (metis reachable.step)
qed

lemma step_service_processing: "step service_submitted service_processing"
proof -
  have "step service_submitted
      (service_submitted\<lparr>cur := processing_state,
         background := remove1 (''a'', hello) (background service_submitted),
         suspended := suspended service_submitted @ [(''a'', hello, frame_a)]\<rparr>)"
    by (rule step.start_await[where now = 1])
      (simp_all add: service_submitted_def begin_submitted processing_state_eq)
  then show ?thesis by (simp add: service_submitted_def service_processing_def)
qed

lemma step_service_completed: "step service_processing service_completed"
proof -
  have "step service_processing
      (service_processing\<lparr>cur := completed_state,
         suspended := remove1 (''a'', hello, frame_a) (suspended service_processing)\<rparr>)"
    by (rule step.finish[where now = 2 and r = "Inr ()"
          and outcome = "Inr (''Text synthesized successfully.'', ''temp_tts_a/rvc_output.wav'')"])
      (simp_all add: service_processing_def completed_state_def process_tts_task_resume_def
        try_after_await_def set_completed_def processing_state_eq frame_a_def)
  then show ?thesis by (simp add: service_processing_def service_completed_def)
qed

lemma reachable_service_completed: "reachable service_completed"
  using reachable_service_submitted step_service_processing step_service_completed
  by (blast intro: reachable.step)

lemma step_query_completed: "step service_completed service_completed"
  by (rule step.status_query[where task_id = "''a''"]) (rule refl)

lemma readonly_submitted_eq:
  "readonly_submitted = \<lparr>tts_tasks = [(''a'', pending_task)], fs = readonly_files\<rparr>"
  by (simp add: readonly_submitted_def text_to_speech_def pending_task_def)

lemma begin_readonly:
  "process_tts_task_begin ''a'' hello 1 readonly_submitted =
     (\<lparr>tts_tasks = [(''a'', failed_task)], fs = readonly_files\<rparr>, Inl (OSError ''[Errno 30] Read-only file system''))"
  unfolding process_tts_task_begin_def try_before_await_closed
  by (simp add: Let_def readonly_submitted_eq readonly_files_def failed_task_def no_locals_def
      except_handler_def remove_if_exists_def os_path_exists_def)

lemma readonly_failed_eq:
  "readonly_failed = \<lparr>tts_tasks = [(''a'', failed_task)], fs = readonly_files\<rparr>"
  by (simp add: readonly_failed_def begin_readonly)

lemma try_before_await_readonly:
  "try_before_await ''a'' hello no_locals readonly_submitted =
     (Some (OSError ''[Errno 30] Read-only file system''), no_locals\<lparr>temp_dir := Some ''temp_tts_a''\<rparr>,
      readonly_submitted)"
  unfolding try_before_await_closed
  by (simp add: Let_def readonly_submitted_eq readonly_files_def)

lemma reachable_service_readonly_submitted: "reachable service_readonly_submitted"
proof -
  have "reachable service_readonly_started"
    by (rule reachable.start) (simp_all add: service_readonly_started_def)
  moreover have "step service_readonly_started
      (service_readonly_started\<lparr>cur := readonly_submitted,
         background := background service_readonly_started @ [(''a'', hello)]\<rparr>)"
    by (rule step.submit[where task_id = "''a''" and now = 0 and req = hello])
      (simp_all add: service_readonly_started_def readonly_submitted_def text_to_speech_def)
  moreover have "service_readonly_started\<lparr>cur := readonly_submitted,
         background := background service_readonly_started @ [(''a'', hello)]\<rparr>
      = service_readonly_submitted"
    by (simp add: service_readonly_started_def service_readonly_submitted_def)
  ultimately show ?thesis by (metis reachable.step)
qed

lemma step_service_readonly_failed: "step service_readonly_submitted service_readonly_failed"
proof -
  have "step service_readonly_submitted
      (service_readonly_submitted\<lparr>cur := readonly_failed,
         background := remove1 (''a'', hello) (background service_readonly_submitted)\<rparr>)"
    by (rule step.start_raise[where now = 1 and e = "OSError ''[Errno 30] Read-only file system''"])
      (simp_all add: service_readonly_submitted_def begin_readonly readonly_failed_eq)
  then show ?thesis by (simp add: service_readonly_submitted_def service_readonly_failed_def)
qed












lemma tick_three_tasks:
  "cleanup_old_tasks_tick (100 * hour) three_tasks =
     (\<lparr>tts_tasks = [(''b'', task_created (77 * hour)), (''c'', task_created (99 * hour))],
       fs = no_files\<rparr>, Inr ())"
  by (simp add: cleanup_old_tasks_tick_def tasks_to_delete_def timedelta_days_def
      microseconds_per_day_def three_tasks_def task_created_def hour_def remove_if_exists_def
      os_path_exists_def shutil_rmtree_def dict_del_def no_files_def)

lemma tick_two_expired:
  "cleanup_old_tasks_tick (100 * hour) two_expired = (two_expired, Inl (OSError ''[Errno 13] Permission denied''))"
  by (simp add: cleanup_old_tasks_tick_def tasks_to_delete_def timedelta_days_def
      microseconds_per_day_def two_expired_def task_created_def hour_def remove_if_exists_def
      os_path_exists_def shutil_rmtree_def dict_del_def locked_files_def Let_def)

lemma tasks_to_delete_second_locked:
  "tasks_to_delete (100 * hour) (tts_tasks second_locked) = [''a''] @ ''b'' # [''c'']"
  by (simp add: tasks_to_delete_def timedelta_days_def microseconds_per_day_def second_locked_def
      task_created_def hour_def)

section \<open>Claims\<close>




text \<open>
  C2, as the code has it. Across one step of a reachable service, every record has one
  of the four status strings, a record under a new key is \<open>pending\<close>, the status of a
  record that is still there is unchanged or has made one of the transitions
  \<open>pending \<rightarrow> processing\<close>, \<open>processing \<rightarrow> completed\<close>, \<open>processing \<rightarrow> failed\<close> and
  \<open>pending \<rightarrow> failed\<close>, and a record that is \<open>completed\<close> or \<open>failed\<close> keeps its
  status. The last transition is not one of the specification's: the worker takes it
  when \<open>os.makedirs\<close> raises, which is inside the \<open>try\<close> and before line 84.
\<close>

theorem status_changes_by_transitions:
  assumes "reachable s" and "step s s'"
  shows "((task_id, t) \<in> set (tts_tasks (cur s)) \<longrightarrow>
            status t \<in> {''pending'', ''processing'', ''completed'', ''failed''}) \<and>
         ((new_id, t_new) \<in> set (tts_tasks (cur s')) \<and>
            new_id \<notin> fst ` set (tts_tasks (cur s)) \<longrightarrow> status t_new = ''pending'') \<and>
         ((task_id, t) \<in> set (tts_tasks (cur s)) \<and> (task_id, t') \<in> set (tts_tasks (cur s')) \<longrightarrow>
            status t' = status t \<or> status_transition (status t) (status t')) \<and>
         ((task_id, t) \<in> set (tts_tasks (cur s)) \<and> (task_id, t') \<in> set (tts_tasks (cur s')) \<and>
            status t \<in> {''completed'', ''failed''} \<longrightarrow> status t' = status t)"
proof -
  have inv: "service_invariant s" using assms(1) by (rule reachable_invariant)
  have m: "status_moves (tts_tasks (cur s)) (tts_tasks (cur s'))"
    using assms(2) inv by (rule status_moves_step)
  have 1: "(task_id, t) \<in> set (tts_tasks (cur s)) \<longrightarrow>
      status t \<in> {''pending'', ''processing'', ''completed'', ''failed''}"
    using inv unfolding service_invariant_def well_formed_def by blast
  have 2: "(new_id, t_new) \<in> set (tts_tasks (cur s')) \<and>
      new_id \<notin> fst ` set (tts_tasks (cur s)) \<longrightarrow> status t_new = ''pending''"
    using m unfolding status_moves_def by blast
  have 3: "(task_id, t) \<in> set (tts_tasks (cur s)) \<and> (task_id, t') \<in> set (tts_tasks (cur s')) \<longrightarrow>
      status t' = status t \<or> status_transition (status t) (status t')"
    using m unfolding status_moves_def by blast
  have 4: "(task_id, t) \<in> set (tts_tasks (cur s)) \<and> (task_id, t') \<in> set (tts_tasks (cur s')) \<and>
      status t \<in> {''completed'', ''failed''} \<longrightarrow> status t' = status t"
    using 3 by (auto simp: status_transition_def spec_transition_def)
  from 1 2 3 4 show ?thesis by blast
qed

text \<open>
  Three steps of the run of task \<open>a\<close>: its submission creates a \<open>pending\<close> record, the
  start of its worker moves it to \<open>processing\<close>, and a status query leaves the
  \<open>completed\<close> record as it is.
\<close>

theorem status_changes_by_transitions_witness:
  "reachable service_submitted \<and> step service_submitted service_processing \<and>
   (''a'', pending_task) \<in> set (tts_tasks (cur service_submitted)) \<and>
   (''a'', processing_task) \<in> set (tts_tasks (cur service_processing)) \<and>
   status pending_task = ''pending'' \<and> status processing_task = ''processing'' \<and>
   status_transition (status pending_task) (status processing_task) \<and>
   reachable service_started \<and> step service_started service_submitted \<and>
   ''a'' \<notin> fst ` set (tts_tasks (cur service_started)) \<and>
   reachable service_completed \<and> step service_completed service_completed \<and>
   (''a'', completed_task) \<in> set (tts_tasks (cur service_completed)) \<and>
   status completed_task \<in> {''completed'', ''failed''}"
  using status_changes_by_transitions[OF reachable_service_submitted step_service_processing,
      of "''a''" pending_task "''a''" processing_task processing_task]
    status_changes_by_transitions[OF reachable_service_started step_service_submitted,
      of "''a''" pending_task "''a''" pending_task pending_task]
    status_changes_by_transitions[OF reachable_service_completed step_query_completed,
      of "''a''" completed_task "''a''" completed_task completed_task]
    reachable_service_submitted step_service_processing reachable_service_started
    step_service_submitted reachable_service_completed step_query_completed
  by (simp add: service_submitted_def service_processing_def service_started_def
      service_completed_def submitted_state_eq processing_state_eq completed_state_eq
      empty_state_def pending_task_def processing_task_def completed_task_def)

text \<open>
  C2 as stated fails: where the working directory cannot be made, the worker's first
  step takes the record of task \<open>a\<close> from \<open>pending\<close> to \<open>failed\<close>, and no read ever
  sees \<open>processing\<close>.
\<close>

theorem pending_to_failed_counterexample:
  "reachable service_readonly_submitted \<and>
   step service_readonly_submitted service_readonly_failed \<and>
   (''a'', pending_task) \<in> set (tts_tasks (cur service_readonly_submitted)) \<and>
   (''a'', failed_task) \<in> set (tts_tasks (cur service_readonly_failed)) \<and>
   status pending_task = ''pending'' \<and> status failed_task = ''failed'' \<and>
   \<not> spec_transition (status pending_task) (status failed_task)"
  using reachable_service_readonly_submitted step_service_readonly_failed
  by (simp add: service_readonly_submitted_def service_readonly_failed_def readonly_submitted_eq
      readonly_failed_eq pending_task_def failed_task_def spec_transition_def)

text \<open>
  C3, as the code has it. When the engine call of a suspended worker raises \<open>e\<close>, the
  record is still in \<open>tts_tasks\<close> and the working directory can be removed, the worker
  writes the status \<open>failed\<close>, \<open>completed_at\<close> and \<open>error = str(e)\<close> into the record,
  removes the working directory, and raises \<open>e\<close> again (line 136): the exception leaves
  \<open>process_tts_task\<close>.
\<close>

theorem engine_failure_recorded_and_reraised:
  assumes "process_tts_task_begin task_id req now0 \<sigma>0 = (\<sigma>1, Inr l)"
    and "map_of (tts_tasks \<sigma>) task_id = Some t"
    and "unremovable (fs \<sigma>) (''temp_tts_'' @ task_id) = None"
  shows "process_tts_task_resume task_id now (Inl e) l \<sigma> =
     (\<sigma>\<lparr>tts_tasks := AList.update task_id
            (t\<lparr>status := ''failed'', completed_at := Some now, error := Some (str_exn e)\<rparr>)
            (tts_tasks \<sigma>),
         fs := (fs \<sigma>)\<lparr>existing := existing (fs \<sigma>) - {''temp_tts_'' @ task_id}\<rparr>\<rparr>,
      Inl e)"
  using assms(2) remove_if_exists_ok[OF assms(3)] begin_suspended_temp_dir[OF assms(1)]
  by (simp add: process_tts_task_resume_def try_after_await_def except_handler_def)

text \<open>The worker of task \<open>a\<close>, resumed with the engine's exception.\<close>

theorem engine_failure_recorded_and_reraised_witness:
  "process_tts_task_begin ''a'' hello 1 submitted_state = (processing_state, Inr frame_a) \<and>
   map_of (tts_tasks processing_state) ''a'' = Some processing_task \<and>
   unremovable (fs processing_state) ''temp_tts_a'' = None \<and>
   process_tts_task_resume ''a'' 2 (Inl (EngineError ''engine blew up'')) frame_a processing_state =
     (\<lparr>tts_tasks = [(''a'', processing_task\<lparr>status := ''failed'', completed_at := Some 2,
                         error := Some ''engine blew up''\<rparr>)],
       fs = no_files\<rparr>, Inl (EngineError ''engine blew up''))"
  using engine_failure_recorded_and_reraised[of "''a''" hello 1 submitted_state processing_state
      frame_a processing_state processing_task 2 "EngineError ''engine blew up''"]
  by (simp add: begin_submitted processing_state_eq no_files_def)

text \<open>
  C3 as stated fails: the engine raises \<open>engine blew up\<close>, the record becomes
  \<open>failed\<close>, and the result of \<open>process_tts_task\<close> is that exception.
\<close>

theorem engine_failure_propagates_counterexample:
  "process_tts_task engine_blew_up ''a'' hello 1 submitted_state =
     (\<lparr>tts_tasks = [(''a'', pending_task\<lparr>status := ''failed'', completed_at := Some 1,
                         error := Some ''engine blew up''\<rparr>)],
       fs = no_files\<rparr>, Inl (EngineError ''engine blew up''))"
  by (simp add: process_tts_task_def begin_submitted process_tts_task_resume_def
      try_after_await_def engine_call_def frame_a_def engine_blew_up_def except_handler_def
      remove_if_exists_def os_path_exists_def shutil_rmtree_def no_files_def processing_task_def)




text \<open>
  C5, as the code has it. On a dict, when no working directory of an expired task is
  one that \<open>shutil.rmtree\<close> fails on, one pass of the sweeper returns normally, keeps
  exactly the records younger than 24 hours, each as it was and in the same order, and
  removes the working directories of the others; the others are the tasks whose age
  is at least 24 hours.
\<close>

theorem sweep_removes_expired:
  assumes "distinct (map fst (tts_tasks \<sigma>))"
    and "\<forall>task_id\<in>set (tasks_to_delete now (tts_tasks \<sigma>)).
           unremovable (fs \<sigma>) (''temp_tts_'' @ task_id) = None"
  shows "cleanup_old_tasks_tick now \<sigma> =
     (\<sigma>\<lparr>tts_tasks := filter (\<lambda>(task_id, t). now - created_at t < microseconds_per_day) (tts_tasks \<sigma>),
         fs := (fs \<sigma>)\<lparr>existing := existing (fs \<sigma>) -
                  (\<lambda>task_id. ''temp_tts_'' @ task_id) ` set (tasks_to_delete now (tts_tasks \<sigma>))\<rparr>\<rparr>,
      Inr ()) \<and>
     set (tasks_to_delete now (tts_tasks \<sigma>)) =
       {task_id. \<exists>t. (task_id, t) \<in> set (tts_tasks \<sigma>) \<and> microseconds_per_day \<le> now - created_at t}"
proof -
  let ?ks = "tasks_to_delete now (tts_tasks \<sigma>)"
  have keys: "set ?ks \<subseteq> fst ` set (tts_tasks \<sigma>)"
    unfolding set_tasks_to_delete by force
  have "AList.restrict (- set ?ks) (tts_tasks \<sigma>) =
      filter (\<lambda>(task_id, t). \<not> timedelta_days now (created_at t) \<ge> 1) (tts_tasks \<sigma>)"
    using assms(1) by (rule restrict_not_expired)
  also have "\<dots> = filter (\<lambda>(task_id, t). now - created_at t < microseconds_per_day) (tts_tasks \<sigma>)"
    by (simp add: timedelta_days_ge_1 not_le)
  finally have r: "AList.restrict (- set ?ks) (tts_tasks \<sigma>) =
      filter (\<lambda>(task_id, t). now - created_at t < microseconds_per_day) (tts_tasks \<sigma>)" .
  have "cleanup_old_tasks_tick now \<sigma> = delete_loop ?ks \<sigma>"
    by (simp add: cleanup_old_tasks_tick_def)
  also have "\<dots> =
     (\<sigma>\<lparr>tts_tasks := AList.restrict (- set ?ks) (tts_tasks \<sigma>),
        fs := (fs \<sigma>)\<lparr>existing := existing (fs \<sigma>) - (\<lambda>k. ''temp_tts_'' @ k) ` set ?ks\<rparr>\<rparr>, Inr ())"
    using distinct_tasks_to_delete[OF assms(1)] keys assms(2) by (rule delete_loop_removes)
  finally have "cleanup_old_tasks_tick now \<sigma> =
     (\<sigma>\<lparr>tts_tasks := filter (\<lambda>(task_id, t). now - created_at t < microseconds_per_day) (tts_tasks \<sigma>),
         fs := (fs \<sigma>)\<lparr>existing := existing (fs \<sigma>) -
                  (\<lambda>task_id. ''temp_tts_'' @ task_id) ` set ?ks\<rparr>\<rparr>, Inr ())"
    by (simp only: r)
  moreover have "set ?ks =
       {task_id. \<exists>t. (task_id, t) \<in> set (tts_tasks \<sigma>) \<and> microseconds_per_day \<le> now - created_at t}"
    by (simp add: set_tasks_to_delete timedelta_days_ge_1)
  ultimately show ?thesis by (rule conjI)
qed

text \<open>
  The scenario of the specification: of three tasks created 25, 23 and 1 hours ago the
  pass deletes the first, with its working directory, and keeps the other two.
\<close>

theorem sweep_removes_expired_witness:
  "distinct (map fst (tts_tasks three_tasks)) \<and>
   unremovable (fs three_tasks) = Map.empty \<and>
   tasks_to_delete (100 * hour) (tts_tasks three_tasks) = [''a''] \<and>
   cleanup_old_tasks_tick (100 * hour) three_tasks =
     (\<lparr>tts_tasks = [(''b'', task_created (77 * hour)), (''c'', task_created (99 * hour))],
       fs = no_files\<rparr>, Inr ())"
  using sweep_removes_expired[of three_tasks "100 * hour"]
  by (simp add: three_tasks_def task_created_def hour_def microseconds_per_day_def
      tasks_to_delete_def timedelta_days_def no_files_def)

text \<open>
  C5 as stated fails twice: a task whose age is exactly 24 hours, which does not exceed
  the window, is deleted; and a task 25 hours old whose working directory cannot be
  removed is not deleted.
\<close>

theorem sweep_boundary_and_failure_counterexample:
  "100 * hour - created_at (task_created (76 * hour)) = microseconds_per_day \<and>
   cleanup_old_tasks_tick (100 * hour) one_day_old = (\<lparr>tts_tasks = [], fs = no_files\<rparr>, Inr ()) \<and>
   microseconds_per_day < 100 * hour - created_at (task_created (75 * hour)) \<and>
   cleanup_old_tasks_tick (100 * hour) one_locked = (one_locked, Inl (OSError ''[Errno 13] Permission denied''))"
  by (simp add: cleanup_old_tasks_tick_def tasks_to_delete_def timedelta_days_def
      microseconds_per_day_def one_day_old_def one_locked_def task_created_def hour_def
      remove_if_exists_def os_path_exists_def shutil_rmtree_def dict_del_def locked_files_def
      no_files_def Let_def)

text \<open>
  C6, as the code has it. When the removal of the working directory of an expired task
  fails, the pass raises that \<open>OSError\<close> to its caller: the expired tasks before it in
  the dict's order are deleted with their directories, the task itself and the expired
  tasks after it stay in \<open>tts_tasks\<close>.
\<close>

theorem sweep_stops_at_failed_removal:
  assumes "distinct (map fst (tts_tasks \<sigma>))"
    and "tasks_to_delete now (tts_tasks \<sigma>) = pre @ task_id # post"
    and "\<forall>k\<in>set pre. unremovable (fs \<sigma>) (''temp_tts_'' @ k) = None"
    and "''temp_tts_'' @ task_id \<in> existing (fs \<sigma>)"
    and "unremovable (fs \<sigma>) (''temp_tts_'' @ task_id) = Some m"
  shows "cleanup_old_tasks_tick now \<sigma> =
     (\<sigma>\<lparr>tts_tasks := AList.restrict (- set pre) (tts_tasks \<sigma>),
         fs := (fs \<sigma>)\<lparr>existing := existing (fs \<sigma>) - (\<lambda>k. ''temp_tts_'' @ k) ` set pre\<rparr>\<rparr>,
      Inl (OSError m)) \<and>
     set (task_id # post) \<subseteq> fst ` set (AList.restrict (- set pre) (tts_tasks \<sigma>))"
proof -
  have d: "distinct (pre @ task_id # post)"
    using distinct_tasks_to_delete[OF assms(1), of now] by (simp add: assms(2))
  then have d1: "distinct (pre @ [task_id])" by simp
  have keys: "set (pre @ task_id # post) \<subseteq> fst ` set (tts_tasks \<sigma>)"
    unfolding assms(2)[symmetric] set_tasks_to_delete by force
  then have kp: "set pre \<subseteq> fst ` set (tts_tasks \<sigma>)" by simp
  have "cleanup_old_tasks_tick now \<sigma> = delete_loop (pre @ task_id # post) \<sigma>"
    by (simp add: cleanup_old_tasks_tick_def assms(2))
  also have "\<dots> =
     (\<sigma>\<lparr>tts_tasks := AList.restrict (- set pre) (tts_tasks \<sigma>),
         fs := (fs \<sigma>)\<lparr>existing := existing (fs \<sigma>) - (\<lambda>k. ''temp_tts_'' @ k) ` set pre\<rparr>\<rparr>,
      Inl (OSError m))"
    using d1 kp assms(3,4,5) by (rule delete_loop_stops)
  finally have 1: "cleanup_old_tasks_tick now \<sigma> =
     (\<sigma>\<lparr>tts_tasks := AList.restrict (- set pre) (tts_tasks \<sigma>),
         fs := (fs \<sigma>)\<lparr>existing := existing (fs \<sigma>) - (\<lambda>k. ''temp_tts_'' @ k) ` set pre\<rparr>\<rparr>,
      Inl (OSError m))" .
  have 2: "set (task_id # post) \<subseteq> fst ` set (AList.restrict (- set pre) (tts_tasks \<sigma>))"
  proof
    fix k assume k: "k \<in> set (task_id # post)"
    with d have "k \<notin> set pre" by auto
    moreover from k keys obtain t where "(k, t) \<in> set (tts_tasks \<sigma>)" by force
    ultimately have "(k, t) \<in> set (AList.restrict (- set pre) (tts_tasks \<sigma>))"
      by (simp add: AList.restrict_eq)
    then show "k \<in> fst ` set (AList.restrict (- set pre) (tts_tasks \<sigma>))"
      by (metis fst_conv image_eqI)
  qed
  from 1 2 show ?thesis by (rule conjI)
qed

text \<open>
  Three expired tasks, the directory of the second locked: the first is deleted, the
  second and third remain, and the pass raises.
\<close>

theorem sweep_stops_at_failed_removal_witness:
  "distinct (map fst (tts_tasks second_locked)) \<and>
   tasks_to_delete (100 * hour) (tts_tasks second_locked) = [''a''] @ ''b'' # [''c''] \<and>
   unremovable (fs second_locked) ''temp_tts_a'' = None \<and>
   ''temp_tts_b'' \<in> existing (fs second_locked) \<and>
   unremovable (fs second_locked) ''temp_tts_b'' = Some ''[Errno 13] Permission denied'' \<and>
   cleanup_old_tasks_tick (100 * hour) second_locked =
     (\<lparr>tts_tasks = [(''b'', task_created (74 * hour)), (''c'', task_created (70 * hour))],
       fs = \<lparr>existing = {''temp_tts_b''},
              unremovable = [''temp_tts_b'' \<mapsto> ''[Errno 13] Permission denied''],
              uncreatable = Map.empty\<rparr>\<rparr>,
      Inl (OSError ''[Errno 13] Permission denied''))"
  using sweep_stops_at_failed_removal[of second_locked "100 * hour" "[''a'']" "''b''" "[''c'']"
      "''[Errno 13] Permission denied''", OF _ tasks_to_delete_second_locked]
    tasks_to_delete_second_locked
  by (simp add: second_locked_def AList.restrict_eq insert_Diff_if)

text \<open>
  C6 as stated fails: with two expired tasks and the directory of the first locked, the
  pass raises and the second task, whose directory is not locked, is still there.
\<close>

theorem sweep_raises_counterexample:
  "cleanup_old_tasks_tick (100 * hour) two_expired = (two_expired, Inl (OSError ''[Errno 13] Permission denied'')) \<and>
   tasks_to_delete (100 * hour) (tts_tasks two_expired) = [''a'', ''b''] \<and>
   unremovable (fs two_expired) ''temp_tts_b'' = None \<and>
   ''b'' \<in> fst ` set (tts_tasks (fst (cleanup_old_tasks_tick (100 * hour) two_expired)))"
  unfolding tick_two_expired
  by (simp add: tasks_to_delete_def timedelta_days_def microseconds_per_day_def two_expired_def
      task_created_def hour_def locked_files_def)

text \<open>
  C7. The record of task \<open>a\<close> is \<open>completed\<close> and names its output file, and neither the
  file nor its directory exists any more. \<open>get_tts_result\<close> raises no 404
  \<open>Output file not found\<close>: it returns the \<open>FileResponse\<close> for the missing path.
\<close>

theorem fetch_result_ignores_missing_file:
  "map_of (tts_tasks artifact_removed) ''a'' = Some completed_task \<and>
   status completed_task = ''completed'' \<and>
   output_file completed_task = Some ''temp_tts_a/rvc_output.wav'' \<and>
   \<not> os_path_exists (fs artifact_removed) ''temp_tts_a/rvc_output.wav'' \<and>
   get_tts_result ''a'' artifact_removed = Inr (FileResponse ''temp_tts_a/rvc_output.wav'')"
  by (simp add: artifact_removed_def completed_state_eq get_tts_result_def os_path_exists_def
      no_files_def completed_task_def pending_task_def)

text \<open>
  C8. \<open>get_tts_result\<close> raises 404 \<open>Task not found\<close> for an id that is not in
  \<open>tts_tasks\<close>, and for a record whose status is not \<open>completed\<close> it raises 400 with
  a detail that ends with the record's status; in both cases it returns no response.
\<close>

theorem fetch_result_not_completed:
  "(map_of (tts_tasks \<sigma>) task_id = None \<longrightarrow>
      get_tts_result task_id \<sigma> = Inl (HTTPException 404 ''Task not found'')) \<and>
   (map_of (tts_tasks \<sigma>) task_id = Some t \<and> status t \<noteq> ''completed'' \<longrightarrow>
      get_tts_result task_id \<sigma> =
        Inl (HTTPException 400 (''Task is not completed. Current status: '' @ status t)))"
  by (simp add: get_tts_result_def)

text \<open>An unknown id, the \<open>pending\<close> task \<open>a\<close> and the \<open>processing\<close> task \<open>a\<close>.\<close>

theorem fetch_result_not_completed_witness:
  "map_of (tts_tasks submitted_state) ''b'' = None \<and>
   get_tts_result ''b'' submitted_state = Inl (HTTPException 404 ''Task not found'') \<and>
   map_of (tts_tasks submitted_state) ''a'' = Some pending_task \<and>
   status pending_task \<noteq> ''completed'' \<and>
   get_tts_result ''a'' submitted_state =
     Inl (HTTPException 400 ''Task is not completed. Current status: pending'') \<and>
   map_of (tts_tasks processing_state) ''a'' = Some processing_task \<and>
   status processing_task \<noteq> ''completed'' \<and>
   get_tts_result ''a'' processing_state =
     Inl (HTTPException 400 ''Task is not completed. Current status: processing'')"
  using fetch_result_not_completed[of submitted_state "''b''" pending_task]
    fetch_result_not_completed[of submitted_state "''a''" pending_task]
    fetch_result_not_completed[of processing_state "''a''" processing_task]
  by (simp add: submitted_state_eq processing_state_eq pending_task_def processing_task_def)

text \<open>
  C9, as the code has it. Every pass reads the clock anew (line 229). On a dict, a
  second pass after the first with nothing else in between, at a clock reading at
  which no task that was younger than 24 hours at the first reading has reached 24
  hours, ends in the state the first pass left and with the same outcome; in
  particular when both passes read the same time.
\<close>

theorem sweep_tick_idempotent:
  assumes "distinct (map fst (tts_tasks \<sigma>))"
    and "now \<le> now'"
    and "\<forall>(task_id, t)\<in>set (tts_tasks (fst (cleanup_old_tasks_tick now \<sigma>))).
           now - created_at t < microseconds_per_day \<longrightarrow>
           now' - created_at t < microseconds_per_day"
  shows "cleanup_old_tasks_tick now' (fst (cleanup_old_tasks_tick now \<sigma>)) =
         cleanup_old_tasks_tick now \<sigma>"
proof -
  define \<sigma>1 where "\<sigma>1 = fst (cleanup_old_tasks_tick now \<sigma>)"
  have "tasks_to_delete now' (tts_tasks \<sigma>1) = tasks_to_delete now (tts_tasks \<sigma>1)"
    unfolding \<sigma>1_def using assms(2,3) by (rule tasks_to_delete_later)
  then have "cleanup_old_tasks_tick now' \<sigma>1 = cleanup_old_tasks_tick now \<sigma>1"
    by (simp add: cleanup_old_tasks_tick_def)
  also have "\<dots> = cleanup_old_tasks_tick now \<sigma>"
    unfolding \<sigma>1_def using assms(1) by (rule tick_twice)
  finally show ?thesis unfolding \<sigma>1_def .
qed

text \<open>
  The three tasks of the scenario, with the second pass half an hour after the first:
  the first pass changes the state, the second does not.
\<close>

theorem sweep_tick_idempotent_witness:
  "distinct (map fst (tts_tasks three_tasks)) \<and> 100 * hour \<le> 100 * hour + 1800000000 \<and>
   fst (cleanup_old_tasks_tick (100 * hour) three_tasks) =
     \<lparr>tts_tasks = [(''b'', task_created (77 * hour)), (''c'', task_created (99 * hour))],
      fs = no_files\<rparr> \<and>
   100 * hour + 1800000000 - created_at (task_created (77 * hour)) < microseconds_per_day \<and>
   100 * hour + 1800000000 - created_at (task_created (99 * hour)) < microseconds_per_day \<and>
   cleanup_old_tasks_tick (100 * hour + 1800000000)
       (fst (cleanup_old_tasks_tick (100 * hour) three_tasks)) =
     cleanup_old_tasks_tick (100 * hour) three_tasks \<and>
   fst (cleanup_old_tasks_tick (100 * hour) three_tasks) \<noteq> three_tasks"
  using sweep_tick_idempotent[of three_tasks "100 * hour" "100 * hour + 1800000000"]
  unfolding tick_three_tasks
  by (simp add: three_tasks_def task_created_def hour_def microseconds_per_day_def)

text \<open>
  C9 as stated fails: on the three tasks of the scenario, a second pass one hour after
  the first, the interval of line 244, deletes the task that was 23 hours old.
\<close>

theorem second_tick_later_counterexample:
  "cleanup_old_tasks_tick (100 * hour) three_tasks =
     (\<lparr>tts_tasks = [(''b'', task_created (77 * hour)), (''c'', task_created (99 * hour))],
       fs = no_files\<rparr>, Inr ()) \<and>
   cleanup_old_tasks_tick (101 * hour) (fst (cleanup_old_tasks_tick (100 * hour) three_tasks)) =
     (\<lparr>tts_tasks = [(''c'', task_created (99 * hour))], fs = no_files\<rparr>, Inr ())"
  unfolding tick_three_tasks
  by (simp add: cleanup_old_tasks_tick_def tasks_to_delete_def timedelta_days_def
      microseconds_per_day_def task_created_def hour_def remove_if_exists_def
      os_path_exists_def dict_del_def no_files_def)

text \<open>
  C10. Whenever the \<open>try\<close> block raises, before or after the \<open>await\<close>, the local
  \<open>temp_dir\<close> is assigned, to the task's working directory; and a handler that runs
  with \<open>temp_dir\<close> assigned raises \<open>e\<close> again, the \<open>KeyError\<close> of line 126 or the
  \<open>OSError\<close> of \<open>shutil.rmtree\<close>, never an \<open>UnboundLocalError\<close> of its own.
\<close>

theorem handler_temp_dir_assigned:
  "(try_before_await task_id req no_locals \<sigma> = (Some e, l, \<sigma>') \<longrightarrow>
      temp_dir l = Some (''temp_tts_'' @ task_id)) \<and>
   (try_before_await task_id req no_locals \<sigma>0 = (None, l1, \<sigma>1) \<and>
    try_after_await task_id now outcome l1 \<sigma>2 = (Some e2, l2, \<sigma>3) \<longrightarrow>
      temp_dir l2 = Some (''temp_tts_'' @ task_id)) \<and>
   (temp_dir l3 = Some d \<longrightarrow>
      snd (except_handler task_id now3 e3 l3 \<sigma>4) \<in>
        {e3, KeyError task_id} \<union> OSError ` ran (unremovable (fs \<sigma>4)))"
proof (intro conjI impI)
  assume "try_before_await task_id req no_locals \<sigma> = (Some e, l, \<sigma>')"
  then show "temp_dir l = Some (''temp_tts_'' @ task_id)"
    unfolding try_before_await_closed
    by (auto simp: Let_def no_locals_def split: if_splits option.splits)
next
  assume a: "try_before_await task_id req no_locals \<sigma>0 = (None, l1, \<sigma>1) \<and>
    try_after_await task_id now outcome l1 \<sigma>2 = (Some e2, l2, \<sigma>3)"
  then have "temp_dir l1 = Some (''temp_tts_'' @ task_id)"
    unfolding try_before_await_closed
    by (auto simp: Let_def no_locals_def split: if_splits option.splits)
  with a show "temp_dir l2 = Some (''temp_tts_'' @ task_id)"
    by (auto simp: try_after_await_def set_completed_def split: sum.splits option.splits)
next
  assume "temp_dir l3 = Some d"
  then show "snd (except_handler task_id now3 e3 l3 \<sigma>4) \<in>
        {e3, KeyError task_id} \<union> OSError ` ran (unremovable (fs \<sigma>4))"
    by (auto simp: except_handler_def Let_def remove_if_exists_def shutil_rmtree_def
        os_path_exists_def ran_def split: option.splits sum.splits if_splits)
qed

text \<open>
  The \<open>try\<close> block raising at \<open>os.makedirs\<close>, raising at the engine call, and the
  handler run after the latter.
\<close>

theorem handler_temp_dir_assigned_witness:
  "try_before_await ''a'' hello no_locals readonly_submitted =
     (Some (OSError ''[Errno 30] Read-only file system''), no_locals\<lparr>temp_dir := Some ''temp_tts_a''\<rparr>,
      readonly_submitted) \<and>
   temp_dir (no_locals\<lparr>temp_dir := Some ''temp_tts_a''\<rparr>) = Some ''temp_tts_a'' \<and>
   try_before_await ''a'' hello no_locals submitted_state = (None, frame_a, processing_state) \<and>
   try_after_await ''a'' 2 (Inl (EngineError ''engine blew up'')) frame_a processing_state =
     (Some (EngineError ''engine blew up''), frame_a, processing_state) \<and>
   temp_dir frame_a = Some ''temp_tts_a'' \<and>
   snd (except_handler ''a'' 2 (EngineError ''engine blew up'') frame_a processing_state) =
     EngineError ''engine blew up''"
  using handler_temp_dir_assigned[where task_id = "''a''" and req = hello
      and \<sigma> = readonly_submitted and e = "OSError ''[Errno 30] Read-only file system''"
      and l = "no_locals\<lparr>temp_dir := Some ''temp_tts_a''\<rparr>" and \<sigma>' = readonly_submitted
      and \<sigma>0 = submitted_state and ?l1.0 = frame_a and ?\<sigma>1.0 = processing_state
      and now = 2 and outcome = "Inl (EngineError ''engine blew up'')"
      and ?\<sigma>2.0 = processing_state and ?e2.0 = "EngineError ''engine blew up''"
      and ?l2.0 = frame_a and ?\<sigma>3.0 = processing_state
      and ?l3.0 = frame_a and d = "''temp_tts_a''" and ?now3.0 = 2
      and ?e3.0 = "EngineError ''engine blew up''" and ?\<sigma>4.0 = processing_state]
    try_before_await_readonly try_before_await_submitted
  by (simp add: try_after_await_def frame_a_def except_handler_def processing_state_eq
      remove_if_exists_def os_path_exists_def shutil_rmtree_def)

end
